theory Spec2Isabelle
  imports Complex_Main
begin

section \<open>Ranking metrics of xib.ignite.metrics\<close>

text \<open>
  The development embeds the metric core of \<^verbatim>\<open>src/xib/ignite/metrics.py\<close>: the pure
  functions \<^verbatim>\<open>mean_average_precision\<close>, \<^verbatim>\<open>precision_at\<close> and \<^verbatim>\<open>recall_at\<close>, the
  batch and epoch metric classes built on them, and \<^verbatim>\<open>BatchMetric.attach\<close>.

  The Python code calls into torch, numpy, scikit-learn and ignite. Those library
  operations are modelled by the definitions of the subsections "Floating-point values",
  "Tensors", "The torch operations", "scikit-learn and numpy" and "The ignite engine";
  every function of the repository itself is translated statement by statement on top of
  them, under its own name.
\<close>

subsection \<open>Python exceptions\<close>

datatype error = ValueError | IndexError | RuntimeError

subsection \<open>Floating-point values\<close>

text \<open>
  A float is modelled as an exact rational or one of the IEEE special values. Rounding is
  not modelled: the properties proved below are about NaN, about the order of values
  and about equality of two runs of the same computation. Every divisor of the program
  is an integer (a Python \<^verbatim>\<open>int\<close>, an entry of an integer tensor, or a count), so division
  takes an \<open>int\<close> divisor; a zero divisor is the positive zero.
\<close>

datatype fval = NaN | PInf | NInf | Fin rat

fun fneg :: "fval \<Rightarrow> fval" where
  "fneg NaN = NaN"
| "fneg PInf = NInf"
| "fneg NInf = PInf"
| "fneg (Fin a) = Fin (- a)"

fun fadd :: "fval \<Rightarrow> fval \<Rightarrow> fval" where
  "fadd NaN y = NaN"
| "fadd PInf y = (case y of NaN \<Rightarrow> NaN | NInf \<Rightarrow> NaN | _ \<Rightarrow> PInf)"
| "fadd NInf y = (case y of NaN \<Rightarrow> NaN | PInf \<Rightarrow> NaN | _ \<Rightarrow> NInf)"
| "fadd (Fin a) y = (case y of Fin b \<Rightarrow> Fin (a + b) | _ \<Rightarrow> y)"

definition fsub :: "fval \<Rightarrow> fval \<Rightarrow> fval" where
  "fsub x y = fadd x (fneg y)"

fun fmul :: "fval \<Rightarrow> fval \<Rightarrow> fval" where
  "fmul NaN y = NaN"
| "fmul PInf y =
     (case y of NaN \<Rightarrow> NaN | PInf \<Rightarrow> PInf | NInf \<Rightarrow> NInf
      | Fin b \<Rightarrow> if b = 0 then NaN else if 0 < b then PInf else NInf)"
| "fmul NInf y =
     (case y of NaN \<Rightarrow> NaN | PInf \<Rightarrow> NInf | NInf \<Rightarrow> PInf
      | Fin b \<Rightarrow> if b = 0 then NaN else if 0 < b then NInf else PInf)"
| "fmul (Fin a) y =
     (case y of NaN \<Rightarrow> NaN
      | PInf \<Rightarrow> if a = 0 then NaN else if 0 < a then PInf else NInf
      | NInf \<Rightarrow> if a = 0 then NaN else if 0 < a then NInf else PInf
      | Fin b \<Rightarrow> Fin (a * b))"

fun fdiv :: "fval \<Rightarrow> int \<Rightarrow> fval" where
  "fdiv NaN d = NaN"
| "fdiv PInf d = (if d < 0 then NInf else PInf)"
| "fdiv NInf d = (if d < 0 then PInf else NInf)"
| "fdiv (Fin a) d =
     (if d = 0 then (if a = 0 then NaN else if 0 < a then PInf else NInf)
      else Fin (a / of_int d))"

text \<open>The comparison \<^verbatim>\<open>x <= y\<close> of two floats: false as soon as one of them is NaN.\<close>

fun fle :: "fval \<Rightarrow> fval \<Rightarrow> bool" where
  "fle NaN y = False"
| "fle x NaN = False"
| "fle NInf y = True"
| "fle x PInf = True"
| "fle PInf y = False"
| "fle x NInf = False"
| "fle (Fin a) (Fin b) = (a \<le> b)"

definition fsum :: "fval list \<Rightarrow> fval" where
  "fsum xs = foldl fadd (Fin 0) xs"

text \<open>\<^verbatim>\<open>t.mean(dim=0)\<close> of a one-dimensional float tensor: the sum over the count; the
  mean of an empty tensor is \<open>0 / 0 = NaN\<close>.\<close>

definition fmean :: "fval list \<Rightarrow> fval" where
  "fmean xs = fdiv (fsum xs) (int (length xs))"

subsection \<open>Tensors\<close>

text \<open>
  A two-dimensional tensor of shape \<open>(N, C)\<close>: the number of columns is kept besides the
  rows, since a tensor with no rows still has a column count that indexing checks.
\<close>

record 'a tensor2 =
  ncols :: nat
  rws :: "'a list list"

definition nrows :: "'a tensor2 \<Rightarrow> nat" where
  "nrows t = length (rws t)"

definition wf_tensor :: "'a tensor2 \<Rightarrow> bool" where
  "wf_tensor t = list_all (\<lambda>r. length r = ncols t) (rws t)"

definition same_shape :: "'a tensor2 \<Rightarrow> 'b tensor2 \<Rightarrow> bool" where
  "same_shape a s = (nrows a = nrows s \<and> ncols a = ncols s)"

text \<open>A relevance matrix is binary when every entry is 0 or 1.\<close>

definition binary :: "int tensor2 \<Rightarrow> bool" where
  "binary a = list_all (list_all (\<lambda>x. x = 0 \<or> x = 1)) (rws a)"

subsection \<open>The torch operations\<close>

text \<open>
  \<^verbatim>\<open>torch.argsort(scores, dim=1, descending=True)\<close>, for one row. torch leaves the order
  of equal scores open unless \<^verbatim>\<open>stable=True\<close> is passed, and the source does not pass
  it. \<open>argsort_desc\<close> is one of the rankings the call may return, the stable one: among
  equal scores the lower index comes first. Index \<open>i\<close> is inserted into the ranking of
  the indices above it, before the first index whose score is not greater. The
  properties below that depend on the order of tied scores are stated for every ranking
  the call may return, with the ranking as a parameter (\<open>precision_at_by\<close>,
  \<open>recall_at_by\<close>).
\<close>

fun insert_desc :: "('s::linorder) list \<Rightarrow> nat \<Rightarrow> nat list \<Rightarrow> nat list" where
  "insert_desc sc i [] = [i]"
| "insert_desc sc i (j # js) =
     (if sc ! j \<le> sc ! i then i # j # js else j # insert_desc sc i js)"

definition argsort_desc :: "('s::linorder) list \<Rightarrow> nat list" where
  "argsort_desc sc = foldr (insert_desc sc) [0..<length sc] []"

definition torch_argsort_desc :: "('s::linorder) tensor2 \<Rightarrow> nat tensor2" where
  "torch_argsort_desc s = \<lparr>ncols = ncols s, rws = map argsort_desc (rws s)\<rparr>"

text \<open>The stop of the Python slice \<^verbatim>\<open>[:m]\<close> on a dimension of size \<open>n\<close>: a negative \<open>m\<close>
  counts from the end, and the result is clipped to \<open>0..n\<close>.\<close>

definition slice_stop :: "nat \<Rightarrow> int \<Rightarrow> nat" where
  "slice_stop n m = (if m < 0 then nat (int n + m) else min n (nat m))"

text \<open>\<^verbatim>\<open>t[:, :m]\<close>\<close>

definition slice_cols :: "'a tensor2 \<Rightarrow> int \<Rightarrow> 'a tensor2" where
  "slice_cols t m =
     \<lparr>ncols = slice_stop (ncols t) m, rws = map (take (slice_stop (ncols t) m)) (rws t)\<rparr>"

text \<open>
  \<^verbatim>\<open>torch.gather(input, index=index, dim=1)\<close>: \<open>out[i][j] = input[i][index[i][j]]\<close>, of the
  shape of \<open>index\<close>. An index tensor without elements gives an empty result unchecked;
  otherwise \<open>index\<close> must not have more rows than \<open>input\<close>, and every index must be a
  column of \<open>input\<close>. \<open>input\<close> may have more rows and more columns than \<open>index\<close>.
\<close>

definition torch_gather :: "'a tensor2 \<Rightarrow> nat tensor2 \<Rightarrow> error + 'a tensor2" where
  "torch_gather input index =
     (if nrows index = 0 \<or> ncols index = 0 then Inr \<lparr>ncols = ncols index, rws = map (\<lambda>r. []) (rws index)\<rparr>
      else if nrows input < nrows index then Inl RuntimeError
      else if \<not> list_all (list_all (\<lambda>j. j < ncols input)) (rws index) then Inl RuntimeError
      else Inr \<lparr>ncols = ncols index,
                rws = map (\<lambda>(ir, ar). map (\<lambda>j. ar ! j) ir) (zip (rws index) (rws input))\<rparr>)"

text \<open>\<^verbatim>\<open>t.cumsum(dim=1)\<close>: running sums along each row.\<close>

fun cumsum_from :: "int \<Rightarrow> int list \<Rightarrow> int list" where
  "cumsum_from acc [] = []"
| "cumsum_from acc (x # xs) = (acc + x) # cumsum_from (acc + x) xs"

definition torch_cumsum :: "int tensor2 \<Rightarrow> int tensor2" where
  "torch_cumsum t = \<lparr>ncols = ncols t, rws = map (cumsum_from 0) (rws t)\<rparr>"

text \<open>\<^verbatim>\<open>t.float()\<close>\<close>

definition to_float :: "int tensor2 \<Rightarrow> fval tensor2" where
  "to_float t = \<lparr>ncols = ncols t, rws = map (map (\<lambda>n. Fin (of_int n))) (rws t)\<rparr>"

text \<open>\<^verbatim>\<open>t[:, idx]\<close> for a Python integer \<open>idx\<close>: a negative index counts from the last
  column; an index outside \<open>-C..C-1\<close> raises IndexError, also when \<open>t\<close> has no rows.\<close>

definition select_col :: "'a tensor2 \<Rightarrow> int \<Rightarrow> error + 'a list" where
  "select_col t idx =
     (let w = int (ncols t) in
      if idx < - w \<or> w \<le> idx then Inl IndexError
      else Inr (map (\<lambda>r. r ! nat (if idx < 0 then idx + w else idx)) (rws t)))"

text \<open>\<^verbatim>\<open>t.sum(dim=1, keepdims=True)\<close>: an \<open>(N, 1)\<close> tensor, kept as the list of its \<open>N\<close>
  entries.\<close>

definition sum_rows :: "int tensor2 \<Rightarrow> int list" where
  "sum_rows t = map sum_list (rws t)"

text \<open>
  \<^verbatim>\<open>c / d\<close> for a float tensor \<open>c\<close> of shape \<open>(n, W)\<close> and an integer tensor \<open>d\<close> of shape
  \<open>(m, 1)\<close>, with torch's broadcasting: the single column of \<open>d\<close> is stretched over the
  columns of \<open>c\<close>; the row counts must agree, or one of them must be 1 and is then
  stretched to the other.
\<close>

definition broadcast_div :: "fval tensor2 \<Rightarrow> int list \<Rightarrow> error + fval tensor2" where
  "broadcast_div c d =
     (if nrows c = length d then
        Inr \<lparr>ncols = ncols c, rws = map (\<lambda>(r, n). map (\<lambda>x. fdiv x n) r) (zip (rws c) d)\<rparr>
      else if length d = 1 then
        Inr \<lparr>ncols = ncols c, rws = map (\<lambda>r. map (\<lambda>x. fdiv x (hd d)) r) (rws c)\<rparr>
      else if nrows c = 1 then
        Inr \<lparr>ncols = ncols c, rws = map (\<lambda>n. map (\<lambda>x. fdiv x n) (hd (rws c))) d\<rparr>
      else Inl RuntimeError)"

text \<open>Python's \<^verbatim>\<open>max(sizes)\<close>: ValueError on an empty sequence.\<close>

definition py_max :: "int list \<Rightarrow> error + int" where
  "py_max xs = (case xs of [] \<Rightarrow> Inl ValueError | y # ys \<Rightarrow> Inr (foldl max y ys))"

subsection \<open>precision_at and recall_at\<close>

text \<open>
  The loop \<^verbatim>\<open>for s in sizes: result[s] = (cumsum[:, (s - 1)] / s).mean(dim=0).item()\<close>;
  the result dictionary is a map from cutoffs to floats.
\<close>

fun precision_loop ::
  "fval tensor2 \<Rightarrow> int list \<Rightarrow> (int \<rightharpoonup> fval) \<Rightarrow> error + (int \<rightharpoonup> fval)" where
  "precision_loop cumsum [] result = Inr result"
| "precision_loop cumsum (s # ss) result =
     (case select_col cumsum (s - 1) of
        Inl e \<Rightarrow> Inl e
      | Inr col \<Rightarrow> precision_loop cumsum ss (result(s \<mapsto> fmean (map (\<lambda>x. fdiv x s) col))))"

definition precision_at ::
  "int tensor2 \<Rightarrow> ('s::linorder) tensor2 \<Rightarrow> int list \<Rightarrow> error + (int \<rightharpoonup> fval)" where
  "precision_at annotations scores sizes =
     (let sorted_labels = torch_argsort_desc scores in
      case py_max sizes of
        Inl e \<Rightarrow> Inl e
      | Inr m \<Rightarrow>
          (case torch_gather annotations (slice_cols sorted_labels m) of
             Inl e \<Rightarrow> Inl e
           | Inr annotations_of_top_max_s \<Rightarrow>
               (let cumsum = to_float (torch_cumsum annotations_of_top_max_s)
                in precision_loop cumsum sizes Map.empty)))"

text \<open>
  \<^verbatim>\<open>recall_at\<close> up to \<^verbatim>\<open>recall = cumsum / num_rel\<close>: the tensor of the per-sample recalls,
  \<open>recall[i][k - 1]\<close> being the recall of sample \<open>i\<close> at cutoff \<open>k\<close>.
\<close>

definition recall_tensor ::
  "int tensor2 \<Rightarrow> ('s::linorder) tensor2 \<Rightarrow> int list \<Rightarrow> error + fval tensor2" where
  "recall_tensor annotations scores sizes =
     (let sorted_labels = torch_argsort_desc scores in
      case py_max sizes of
        Inl e \<Rightarrow> Inl e
      | Inr m \<Rightarrow>
          (case torch_gather annotations (slice_cols sorted_labels m) of
             Inl e \<Rightarrow> Inl e
           | Inr annotations_of_top_max_s \<Rightarrow>
               (let cumsum = to_float (torch_cumsum annotations_of_top_max_s);
                    num_rel = sum_rows annotations
                in broadcast_div cumsum num_rel)))"

text \<open>The loop \<^verbatim>\<open>for s in sizes: result[s] = recall[:, s - 1].mean(axis=0).item()\<close>\<close>

fun recall_loop ::
  "fval tensor2 \<Rightarrow> int list \<Rightarrow> (int \<rightharpoonup> fval) \<Rightarrow> error + (int \<rightharpoonup> fval)" where
  "recall_loop recall [] result = Inr result"
| "recall_loop recall (s # ss) result =
     (case select_col recall (s - 1) of
        Inl e \<Rightarrow> Inl e
      | Inr col \<Rightarrow> recall_loop recall ss (result(s \<mapsto> fmean col)))"

definition recall_at ::
  "int tensor2 \<Rightarrow> ('s::linorder) tensor2 \<Rightarrow> int list \<Rightarrow> error + (int \<rightharpoonup> fval)" where
  "recall_at annotations scores sizes =
     (case recall_tensor annotations scores sizes of
        Inl e \<Rightarrow> Inl e
      | Inr recall \<Rightarrow> recall_loop recall sizes Map.empty)"

subsection \<open>precision_at and recall_at for any ranking\<close>

text \<open>
  The same two functions with the result of \<^verbatim>\<open>torch.argsort\<close> on a row as a parameter
  \<open>argsort\<close>; \<open>precision_at\<close> and \<open>recall_at\<close> above are the instances for
  \<open>argsort_desc\<close>.
\<close>

definition torch_argsort_by :: "('s list \<Rightarrow> nat list) \<Rightarrow> 's tensor2 \<Rightarrow> nat tensor2" where
  "torch_argsort_by argsort s = \<lparr>ncols = ncols s, rws = map argsort (rws s)\<rparr>"

definition precision_at_by ::
  "('s list \<Rightarrow> nat list) \<Rightarrow> int tensor2 \<Rightarrow> 's tensor2 \<Rightarrow> int list
     \<Rightarrow> error + (int \<rightharpoonup> fval)" where
  "precision_at_by argsort annotations scores sizes =
     (let sorted_labels = torch_argsort_by argsort scores in
      case py_max sizes of
        Inl e \<Rightarrow> Inl e
      | Inr m \<Rightarrow>
          (case torch_gather annotations (slice_cols sorted_labels m) of
             Inl e \<Rightarrow> Inl e
           | Inr annotations_of_top_max_s \<Rightarrow>
               (let cumsum = to_float (torch_cumsum annotations_of_top_max_s)
                in precision_loop cumsum sizes Map.empty)))"

definition recall_at_by ::
  "('s list \<Rightarrow> nat list) \<Rightarrow> int tensor2 \<Rightarrow> 's tensor2 \<Rightarrow> int list
     \<Rightarrow> error + (int \<rightharpoonup> fval)" where
  "recall_at_by argsort annotations scores sizes =
     (let sorted_labels = torch_argsort_by argsort scores in
      case py_max sizes of
        Inl e \<Rightarrow> Inl e
      | Inr m \<Rightarrow>
          (case torch_gather annotations (slice_cols sorted_labels m) of
             Inl e \<Rightarrow> Inl e
           | Inr annotations_of_top_max_s \<Rightarrow>
               (let cumsum = to_float (torch_cumsum annotations_of_top_max_s);
                    num_rel = sum_rows annotations
                in case broadcast_div cumsum num_rel of
                     Inl e \<Rightarrow> Inl e
                   | Inr recall \<Rightarrow> recall_loop recall sizes Map.empty)))"

subsection \<open>scikit-learn and numpy\<close>

text \<open>
  \<^verbatim>\<open>sklearn.metrics.average_precision_score(y_true, y_score, average=None)\<close> computes,
  for each class column, the average precision of the binary problem of that column:
  the samples are ranked by decreasing score, the precision and the recall are taken
  at the last sample of every group of equal scores, and the precisions are summed,
  each weighted by the increase of the recall. The recall is \<open>tps / tps[-1]\<close>, which is
  \<open>0 / 0\<close> for a column without positive sample; the caller silences numpy's warning
  for it with \<^verbatim>\<open>np.errstate(invalid='ignore')\<close>.
\<close>

text \<open>\<^verbatim>\<open>np.argsort(y_score, kind="mergesort")[::-1]\<close>, applied to scores and labels.\<close>

definition desc_sorted :: "('s::linorder) list \<Rightarrow> int list \<Rightarrow> ('s \<times> int) list" where
  "desc_sorted y_score y_true = rev (sort_key fst (zip y_score y_true))"

text \<open>The last index of every group of equal scores.\<close>

definition threshold_idxs :: "'s list \<Rightarrow> nat list" where
  "threshold_idxs ys = filter (\<lambda>i. Suc i = length ys \<or> ys ! i \<noteq> ys ! Suc i) [0..<length ys]"

text \<open>\<^verbatim>\<open>np.diff\<close>\<close>

fun np_diff :: "fval list \<Rightarrow> fval list" where
  "np_diff (x # y # ys) = fsub y x # np_diff (y # ys)"
| "np_diff ys = []"

definition average_precision :: "int list \<Rightarrow> ('s::linorder) list \<Rightarrow> fval" where
  "average_precision y_true y_score =
     (let ps = desc_sorted y_score y_true;
          labels = map (\<lambda>p. if snd p = 1 then 1 else 0) ps;
          idxs = threshold_idxs (map fst ps);
          tps = map (\<lambda>i. cumsum_from 0 labels ! i) idxs;
          fps = map (\<lambda>(i, t). 1 + int i - t) (zip idxs tps);
          precision = map (\<lambda>(t, f). fdiv (Fin (of_int t)) (t + f)) (zip tps fps);
          precision0 = map (\<lambda>x. if x = NaN then Fin 0 else x) precision;
          recall = map (\<lambda>t. fdiv (Fin (of_int t)) (last tps)) tps;
          last_ind = length (takeWhile (\<lambda>t. t < last tps) tps);
          precision_r = rev (take (Suc last_ind) precision0) @ [Fin 1];
          recall_r = rev (take (Suc last_ind) recall) @ [Fin 0]
      in fneg (fsum (map (\<lambda>(d, p). fmul d p) (zip (np_diff recall_r) (butlast precision_r)))))"

text \<open>Column \<open>c\<close> of a tensor.\<close>

definition column :: "'a tensor2 \<Rightarrow> nat \<Rightarrow> 'a list" where
  "column t c = map (\<lambda>r. r ! c) (rws t)"

text \<open>
  The input checks of scikit-learn before the per-class loop: both arrays have the same
  number of samples, at least one sample and at least one column, and the labels are a
  binary indicator matrix. The model covers 0/1 label matrices, the relevance matrices of
  the data model, and rejects any other label matrix, as scikit-learn does for
  multiclass and continuous targets. The loop runs over the columns of \<open>y_score\<close> and
  takes the same column of \<open>y_true\<close>.
\<close>

definition average_precision_score ::
  "int tensor2 \<Rightarrow> ('s::linorder) tensor2 \<Rightarrow> error + fval list" where
  "average_precision_score y_true y_score =
     (if nrows y_true \<noteq> nrows y_score then Inl ValueError
      else if nrows y_true = 0 \<or> ncols y_true = 0 \<or> ncols y_score = 0 then Inl ValueError
      else if \<not> binary y_true then Inl ValueError
      else if ncols y_true = 1 \<and> ncols y_score \<noteq> 1 then Inl ValueError
      else if ncols y_true < ncols y_score then Inl IndexError
      else Inr (map (\<lambda>c. average_precision (column y_true c) (column y_score c))
                  [0..<ncols y_score]))"

text \<open>
  The definitions above follow scikit-learn up to version 1.0. From version 1.1 on,
  \<^verbatim>\<open>precision_recall_curve\<close> sets the recall to 1 at every threshold when the column has
  no positive sample (and warns), and keeps every threshold; the average precision of
  such a column is then the precision at the first threshold, 0. The source does not
  say which version it runs with.
\<close>

definition average_precision_1_1 :: "int list \<Rightarrow> ('s::linorder) list \<Rightarrow> fval" where
  "average_precision_1_1 y_true y_score =
     (let ps = desc_sorted y_score y_true;
          labels = map (\<lambda>p. if snd p = 1 then 1 else 0) ps;
          idxs = threshold_idxs (map fst ps);
          tps = map (\<lambda>i. cumsum_from 0 labels ! i) idxs;
          fps = map (\<lambda>(i, t). 1 + int i - t) (zip idxs tps);
          precision = map (\<lambda>(t, f). fdiv (Fin (of_int t)) (t + f)) (zip tps fps);
          recall = (if last tps = 0 then map (\<lambda>t. Fin 1) tps
                    else map (\<lambda>t. fdiv (Fin (of_int t)) (last tps)) tps);
          precision_r = rev precision @ [Fin 1];
          recall_r = rev recall @ [Fin 0]
      in fneg (fsum (map (\<lambda>(d, p). fmul d p) (zip (np_diff recall_r) (butlast precision_r)))))"

definition average_precision_score_1_1 ::
  "int tensor2 \<Rightarrow> ('s::linorder) tensor2 \<Rightarrow> error + fval list" where
  "average_precision_score_1_1 y_true y_score =
     (if nrows y_true \<noteq> nrows y_score then Inl ValueError
      else if nrows y_true = 0 \<or> ncols y_true = 0 \<or> ncols y_score = 0 then Inl ValueError
      else if \<not> binary y_true then Inl ValueError
      else if ncols y_true = 1 \<and> ncols y_score \<noteq> 1 then Inl ValueError
      else if ncols y_true < ncols y_score then Inl IndexError
      else Inr (map (\<lambda>c. average_precision_1_1 (column y_true c) (column y_score c))
                  [0..<ncols y_score]))"

text \<open>\<^verbatim>\<open>np.nanmean\<close>: the NaN entries are replaced by 0 and left out of the count; the sum is
  divided by the count of the other entries, which gives \<open>0 / 0\<close> when there are none.\<close>

definition nanmean :: "fval list \<Rightarrow> fval" where
  "nanmean xs =
     fdiv (fsum (map (\<lambda>x. if x = NaN then Fin 0 else x) xs))
          (int (length (filter (\<lambda>x. x \<noteq> NaN) xs)))"

subsection \<open>mean_average_precision\<close>

definition mean_average_precision ::
  "int tensor2 \<Rightarrow> ('s::linorder) tensor2 \<Rightarrow> error + fval" where
  "mean_average_precision annotations scores =
     (case average_precision_score annotations scores of
        Inl e \<Rightarrow> Inl e
      | Inr average_precisions \<Rightarrow> Inr (nanmean average_precisions))"

text \<open>The same function with \<^verbatim>\<open>sklearn.metrics.average_precision_score\<close> (called with
  \<^verbatim>\<open>average=None\<close>) as a parameter; \<open>mean_average_precision\<close> is the instance for
  scikit-learn up to 1.0.\<close>

definition mean_average_precision_by ::
  "(int tensor2 \<Rightarrow> 's tensor2 \<Rightarrow> error + fval list) \<Rightarrow> int tensor2 \<Rightarrow> 's tensor2
     \<Rightarrow> error + fval" where
  "mean_average_precision_by ap_score annotations scores =
     (case ap_score annotations scores of
        Inl e \<Rightarrow> Inl e
      | Inr average_precisions \<Rightarrow> Inr (nanmean average_precisions))"

subsection \<open>The metric classes\<close>

text \<open>
  \<^verbatim>\<open>torch.cat(ts)\<close> along the sample axis: an empty list is an error, and so are tensors
  of different column counts.
\<close>

definition torch_cat :: "'a tensor2 list \<Rightarrow> error + 'a tensor2" where
  "torch_cat ts =
     (case ts of
        [] \<Rightarrow> Inl RuntimeError
      | t # _ \<Rightarrow>
          if list_all (\<lambda>u. ncols u = ncols t) ts
          then Inr \<lparr>ncols = ncols t, rws = concat (map rws ts)\<rparr>
          else Inl RuntimeError)"

text \<open>
  Each class is a record of its fields and one function per method. ignite's
  \<^verbatim>\<open>Metric.__init__\<close> calls \<^verbatim>\<open>reset()\<close>, so a new instance is in its reset state.
  A method that can raise returns \<open>error + _\<close>. The methods carry the initials of
  their class: \<open>mapb_\<close> for \<^verbatim>\<open>MeanAveragePrecisionBatch\<close>, \<open>mape_\<close> for
  \<^verbatim>\<open>MeanAveragePrecisionEpoch\<close>, \<open>rab_\<close> for \<^verbatim>\<open>RecallAtBatch\<close> and \<open>rae_\<close> for
  \<^verbatim>\<open>RecallAtEpoch\<close>.
\<close>

record MeanAveragePrecisionBatch =
  avg_precision :: fval

definition mapb_reset :: "MeanAveragePrecisionBatch \<Rightarrow> MeanAveragePrecisionBatch" where
  "mapb_reset self = self\<lparr>avg_precision := NaN\<rparr>"

definition mapb_update ::
  "MeanAveragePrecisionBatch \<Rightarrow> int tensor2 \<times> ('s::linorder) tensor2
     \<Rightarrow> error + MeanAveragePrecisionBatch" where
  "mapb_update self output =
     (case output of (y_true, y_score) \<Rightarrow>
        (case mean_average_precision y_true y_score of
           Inl e \<Rightarrow> Inl e
         | Inr v \<Rightarrow> Inr (self\<lparr>avg_precision := v\<rparr>)))"

definition mapb_compute :: "MeanAveragePrecisionBatch \<Rightarrow> error + fval" where
  "mapb_compute self = Inr (avg_precision self)"

record 's MeanAveragePrecisionEpoch =
  y_true :: "int tensor2 list"
  y_score :: "'s tensor2 list"

definition mape_reset :: "'s MeanAveragePrecisionEpoch \<Rightarrow> 's MeanAveragePrecisionEpoch" where
  "mape_reset self = self\<lparr>y_true := [], y_score := []\<rparr>"

definition mape_update ::
  "'s MeanAveragePrecisionEpoch \<Rightarrow> int tensor2 \<times> 's tensor2 \<Rightarrow> 's MeanAveragePrecisionEpoch" where
  "mape_update self output =
     (case output of (yt, ys) \<Rightarrow>
        self\<lparr>y_true := y_true self @ [yt], y_score := y_score self @ [ys]\<rparr>)"

definition mape_compute :: "('s::linorder) MeanAveragePrecisionEpoch \<Rightarrow> error + fval" where
  "mape_compute self =
     (case torch_cat (y_true self) of
        Inl e \<Rightarrow> Inl e
      | Inr a \<Rightarrow>
          (case torch_cat (y_score self) of
             Inl e \<Rightarrow> Inl e
           | Inr s \<Rightarrow> mean_average_precision a s))"

text \<open>\<^verbatim>\<open>RecallAtBatch\<close>: the field \<^verbatim>\<open>_recall_at\<close> is a dictionary from cutoffs to
  \<^verbatim>\<open>Optional[float]\<close>.\<close>

record RecallAtBatch =
  rab_sorted_sizes :: "int list"
  rab_recall_at :: "int \<rightharpoonup> fval option"

definition rab_reset :: "RecallAtBatch \<Rightarrow> RecallAtBatch" where
  "rab_reset self =
     self\<lparr>rab_recall_at := (\<lambda>s. if s \<in> set (rab_sorted_sizes self) then Some None else None)\<rparr>"

definition rab_init :: "int list \<Rightarrow> RecallAtBatch" where
  "rab_init sizes = rab_reset \<lparr>rab_sorted_sizes = sort sizes, rab_recall_at = Map.empty\<rparr>"

definition rab_update ::
  "RecallAtBatch \<Rightarrow> int tensor2 \<times> ('s::linorder) tensor2 \<Rightarrow> error + RecallAtBatch" where
  "rab_update self output =
     (case output of (yt, ys) \<Rightarrow>
        (case recall_at yt ys (rab_sorted_sizes self) of
           Inl e \<Rightarrow> Inl e
         | Inr r \<Rightarrow> Inr (self\<lparr>rab_recall_at := rab_recall_at self ++ (map_option Some \<circ> r)\<rparr>)))"

definition rab_compute :: "RecallAtBatch \<Rightarrow> error + (int \<rightharpoonup> fval option)" where
  "rab_compute self = Inr (rab_recall_at self)"

record 's RecallAtEpoch =
  rae_sorted_sizes :: "int list"
  rae_y_true :: "int tensor2 list"
  rae_y_score :: "'s tensor2 list"

definition rae_reset :: "'s RecallAtEpoch \<Rightarrow> 's RecallAtEpoch" where
  "rae_reset self = self\<lparr>rae_y_true := [], rae_y_score := []\<rparr>"

definition rae_init :: "int list \<Rightarrow> 's RecallAtEpoch" where
  "rae_init sizes = rae_reset \<lparr>rae_sorted_sizes = sort sizes, rae_y_true = [], rae_y_score = []\<rparr>"

definition rae_update ::
  "'s RecallAtEpoch \<Rightarrow> int tensor2 \<times> 's tensor2 \<Rightarrow> 's RecallAtEpoch" where
  "rae_update self output =
     (case output of (yt, ys) \<Rightarrow>
        self\<lparr>rae_y_true := rae_y_true self @ [yt], rae_y_score := rae_y_score self @ [ys]\<rparr>)"

definition rae_compute :: "('s::linorder) RecallAtEpoch \<Rightarrow> error + (int \<rightharpoonup> fval)" where
  "rae_compute self =
     (case torch_cat (rae_y_true self) of
        Inl e \<Rightarrow> Inl e
      | Inr a \<Rightarrow>
          (case torch_cat (rae_y_score self) of
             Inl e \<Rightarrow> Inl e
           | Inr s \<Rightarrow> recall_at a s (rae_sorted_sizes self)))"

subsection \<open>The ignite engine and BatchMetric.attach\<close>

text \<open>
  The engine keeps, for every event, the list of the registered handlers with their
  arguments, in registration order. A handler is a bound method of a metric instance;
  two bound methods are equal when they are the same method of the same instance.
\<close>

datatype event = STARTED | EPOCH_STARTED | ITERATION_STARTED
  | ITERATION_COMPLETED | EPOCH_COMPLETED | COMPLETED

datatype callback = Started | Iteration_completed | Completed

type_synonym handler = "nat \<times> callback"

record engine =
  event_handlers :: "event \<Rightarrow> (handler \<times> string list) list"

definition new_engine :: engine where
  "new_engine = \<lparr>event_handlers = (\<lambda>e. [])\<rparr>"

definition has_event_handler :: "engine \<Rightarrow> handler \<Rightarrow> event \<Rightarrow> bool" where
  "has_event_handler eng h ev = (h \<in> set (map fst (event_handlers eng ev)))"

definition add_event_handler :: "engine \<Rightarrow> event \<Rightarrow> handler \<Rightarrow> string list \<Rightarrow> engine" where
  "add_event_handler eng ev h args =
     eng\<lparr>event_handlers := (event_handlers eng)(ev := event_handlers eng ev @ [(h, args)])\<rparr>"

text \<open>\<^verbatim>\<open>BatchMetric.attach(self, engine, name)\<close>; \<open>self\<close> is the identity of the instance.\<close>

definition attach :: "nat \<Rightarrow> engine \<Rightarrow> string \<Rightarrow> engine" where
  "attach self eng name =
     (let eng1 = (if \<not> has_event_handler eng (self, Started) ITERATION_STARTED
                  then add_event_handler eng ITERATION_STARTED (self, Started) []
                  else eng);
          eng2 = (if \<not> has_event_handler eng1 (self, Iteration_completed) ITERATION_COMPLETED
                  then add_event_handler eng1 ITERATION_COMPLETED (self, Iteration_completed) []
                  else eng1)
      in add_event_handler eng2 ITERATION_COMPLETED (self, Completed) [name])"

text \<open>How often a handler is registered for an event.\<close>

definition registrations :: "engine \<Rightarrow> event \<Rightarrow> handler \<Rightarrow> nat" where
  "registrations eng ev h = length (filter (\<lambda>r. fst r = h) (event_handlers eng ev))"

subsection \<open>Notions used to state the properties\<close>

text \<open>Index \<open>i\<close> is ranked before index \<open>j\<close>: its score is greater, or the scores are equal
  and \<open>i\<close> is the lower index.\<close>

definition ranked_before :: "('s::linorder) list \<Rightarrow> nat \<Rightarrow> nat \<Rightarrow> bool" where
  "ranked_before sc i j = (sc ! j < sc ! i \<or> (sc ! j = sc ! i \<and> i < j))"

text \<open>The sum of the relevance entries of the \<open>k\<close> top-ranked classes of one sample; for
  a 0/1 row, the number of relevant classes among the top \<open>k\<close>.\<close>

definition top_hits :: "int list \<Rightarrow> ('s::linorder) list \<Rightarrow> nat \<Rightarrow> int" where
  "top_hits ar sr k = sum_list (map ((!) ar) (take k (argsort_desc sr)))"

text \<open>The cutoffs the specification allows for \<open>c\<close> classes: at least one cutoff, each
  between 1 and \<open>c\<close>.\<close>

definition valid_sizes :: "nat \<Rightarrow> int list \<Rightarrow> bool" where
  "valid_sizes c sizes = (sizes \<noteq> [] \<and> list_all (\<lambda>k. 1 \<le> k \<and> k \<le> int c) sizes)"

text \<open>The row-wise concatenation of a sequence of matrices, in the words of the
  specification: the rows of the first matrix, then those of the second, and so on.\<close>

definition vstack :: "'a tensor2 list \<Rightarrow> 'a tensor2" where
  "vstack ts = \<lparr>ncols = ncols (hd ts), rws = concat (map rws ts)\<rparr>"

text \<open>What \<^verbatim>\<open>torch.argsort(row, descending=True)\<close> promises of its result: a
  permutation of the indices of the row along which the scores do not increase. The
  order among equal scores is left open.\<close>

definition desc_ranking :: "(('s::linorder) list \<Rightarrow> nat list) \<Rightarrow> bool" where
  "desc_ranking argsort =
     (\<forall>sc. distinct (argsort sc) \<and> set (argsort sc) = {0..<length sc} \<and>
           sorted_wrt (\<lambda>i j. sc ! j \<le> sc ! i) (argsort sc))"

text \<open>The sum of the relevance entries of the \<open>k\<close> classes a ranking puts first; for a 0/1
  row, the number of relevant classes among them.\<close>

definition hits_by :: "('s list \<Rightarrow> nat list) \<Rightarrow> int list \<Rightarrow> 's list \<Rightarrow> nat \<Rightarrow> int" where
  "hits_by argsort ar sr k = sum_list (map ((!) ar) (take k (argsort sr)))"

section \<open>Properties\<close>

subsection \<open>The ranking\<close>

lemma set_insert_desc: "set (insert_desc sc i js) = insert i (set js)"
  by (induction js) auto

lemma length_insert_desc: "length (insert_desc sc i js) = Suc (length js)"
  by (induction js) auto

lemma distinct_insert_desc: "distinct (insert_desc sc i js) \<longleftrightarrow> i \<notin> set js \<and> distinct js"
  by (induction js) (auto simp: set_insert_desc)

lemma sorted_insert_desc:
  assumes "sorted_wrt (ranked_before sc) js" and "\<forall>j\<in>set js. i < j"
  shows "sorted_wrt (ranked_before sc) (insert_desc sc i js)"
  using assms
proof (induction js)
  case Nil
  then show ?case by simp
next
  case (Cons j js)
  show ?case
  proof (cases "sc ! j \<le> sc ! i")
    case True
    have "ranked_before sc i k" if "k \<in> set (j # js)" for k
    proof -
      have "sc ! k \<le> sc ! j"
        using that Cons.prems(1) by (auto simp: ranked_before_def)
      moreover have "i < k" using that Cons.prems(2) by auto
      ultimately show ?thesis using True by (auto simp: ranked_before_def)
    qed
    with True Cons.prems(1) show ?thesis by simp
  next
    case False
    then have "ranked_before sc j i" by (auto simp: ranked_before_def)
    with False Cons show ?thesis by (auto simp: set_insert_desc)
  qed
qed

lemma foldr_insert_desc:
  assumes "sorted_wrt (<) ns"
  shows "set (foldr (insert_desc sc) ns []) = set ns \<and>
    distinct (foldr (insert_desc sc) ns []) \<and>
    length (foldr (insert_desc sc) ns []) = length ns \<and>
    sorted_wrt (ranked_before sc) (foldr (insert_desc sc) ns [])"
  using assms
proof (induction ns)
  case Nil
  then show ?case by simp
next
  case (Cons n ns)
  let ?r = "foldr (insert_desc sc) ns []"
  have ih: "set ?r = set ns" "distinct ?r" "length ?r = length ns"
    "sorted_wrt (ranked_before sc) ?r"
    using Cons by simp_all
  have above: "\<forall>j\<in>set ?r. n < j" using Cons.prems ih(1) by simp
  then have "n \<notin> set ?r" by auto
  moreover have "sorted_wrt (ranked_before sc) (insert_desc sc n ?r)"
    using ih(4) above by (rule sorted_insert_desc)
  ultimately show ?case
    using ih by (simp add: set_insert_desc distinct_insert_desc length_insert_desc)
qed

lemma set_argsort_desc: "set (argsort_desc sc) = {0..<length sc}"
  and distinct_argsort_desc: "distinct (argsort_desc sc)"
  and length_argsort_desc: "length (argsort_desc sc) = length sc"
  and sorted_argsort_desc: "sorted_wrt (ranked_before sc) (argsort_desc sc)"
  using foldr_insert_desc [of "[0..<length sc]" sc]
  by (simp_all add: argsort_desc_def)

lemma cumsum_from_eq:
  "cumsum_from acc xs = map (\<lambda>j. acc + sum_list (take (Suc j) xs)) [0..<length xs]"
proof (induction xs arbitrary: acc)
  case Nil
  then show ?case by simp
next
  case (Cons x xs)
  have "[0..<length (x # xs)] = 0 # map Suc [0..<length xs]"
    by (simp add: upt_conv_Cons map_Suc_upt del: upt_Suc)
  then show ?case by (simp add: Cons.IH comp_def add.assoc)
qed

lemma gather_ranked:
  assumes "wf_tensor a" and "wf_tensor s" and "same_shape a s"
  shows "torch_gather a (slice_cols (torch_argsort_desc s) m) =
    Inr \<lparr>ncols = slice_stop (ncols s) m,
         rws = map (\<lambda>(sr, ar). map ((!) ar) (take (slice_stop (ncols s) m) (argsort_desc sr)))
                 (zip (rws s) (rws a))\<rparr>"
proof -
  let ?w = "slice_stop (ncols s) m"
  have len: "length (rws a) = length (rws s)"
    using assms(3) by (simp add: same_shape_def nrows_def)
  have valid: "list_all (list_all (\<lambda>j. j < ncols a)) (map (take ?w) (map argsort_desc (rws s)))"
  proof -
    have "j < ncols a" if "sr \<in> set (rws s)" and "j \<in> set (take ?w (argsort_desc sr))" for sr j
    proof -
      have "j \<in> set (argsort_desc sr)" using that(2) by (rule in_set_takeD)
      then have "j < length sr" by (simp add: set_argsort_desc)
      moreover have "length sr = ncols s"
        using that(1) assms(2) by (simp add: wf_tensor_def list_all_iff)
      ultimately show ?thesis using assms(3) by (simp add: same_shape_def)
    qed
    then show ?thesis by (auto simp: list_all_iff)
  qed
  have rows: "map (\<lambda>(ir, ar). map ((!) ar) ir) (zip (map (take ?w) (map argsort_desc (rws s))) (rws a))
      = map (\<lambda>(sr, ar). map ((!) ar) (take ?w (argsort_desc sr))) (zip (rws s) (rws a))"
    by (simp add: zip_map1 comp_def case_prod_unfold)
  show ?thesis
  proof (cases "nrows s = 0 \<or> ?w = 0")
    case True
    then have "map (\<lambda>r. []) (map (take ?w) (map argsort_desc (rws s)))
      = map (\<lambda>(sr, ar). map ((!) ar) (take ?w (argsort_desc sr))) (zip (rws s) (rws a))"
      using len by (auto simp: nrows_def intro!: nth_equalityI)
    with True show ?thesis
      by (auto simp: torch_gather_def slice_cols_def torch_argsort_desc_def nrows_def)
  next
    case False
    with valid rows len show ?thesis
      by (simp add: torch_gather_def slice_cols_def torch_argsort_desc_def nrows_def)
  qed
qed

lemma foldl_max_Max: "foldl max (y::int) ys = Max (set (y # ys))"
proof (induction ys arbitrary: y)
  case Nil
  then show ?case by simp
next
  case (Cons z zs)
  have "foldl max y (z # zs) = foldl max (max y z) zs" by simp
  also have "\<dots> = Max (set (max y z # zs))" by (rule Cons.IH)
  also have "\<dots> = Max (set (y # z # zs))"
    by (cases "zs = []") (simp_all add: max.assoc)
  finally show ?case .
qed

lemma py_max_eq:
  assumes "sizes \<noteq> []"
  shows "py_max sizes = Inr (Max (set sizes))"
  using assms by (cases sizes) (simp_all add: py_max_def foldl_max_Max del: foldl.simps)

lemma valid_sizes_max:
  assumes "valid_sizes c sizes"
  shows "py_max sizes = Inr (Max (set sizes))"
    and "slice_stop c (Max (set sizes)) = nat (Max (set sizes))"
    and "nat (Max (set sizes)) \<le> c"
    and "\<forall>k\<in>set sizes. 1 \<le> k \<and> nat k \<le> nat (Max (set sizes))"
proof -
  from assms have ne: "sizes \<noteq> []" and rng: "\<forall>k\<in>set sizes. 1 \<le> k \<and> k \<le> int c"
    by (simp_all add: valid_sizes_def list_all_iff)
  from ne show "py_max sizes = Inr (Max (set sizes))" by (rule py_max_eq)
  have "Max (set sizes) \<in> set sizes" using ne by (intro Max_in) simp_all
  with rng have m: "1 \<le> Max (set sizes)" "Max (set sizes) \<le> int c" by auto
  then show "slice_stop c (Max (set sizes)) = nat (Max (set sizes))"
    and "nat (Max (set sizes)) \<le> c"
    by (simp_all add: slice_stop_def)
  show "\<forall>k\<in>set sizes. 1 \<le> k \<and> nat k \<le> nat (Max (set sizes))"
  proof
    fix k assume k: "k \<in> set sizes"
    then have "nat k \<le> nat (Max (set sizes))" by (intro nat_mono Max_ge) simp_all
    with rng k show "1 \<le> k \<and> nat k \<le> nat (Max (set sizes))" by blast
  qed
qed

lemma cumsum_gathered_row:
  assumes "w \<le> length sr"
  shows "map (\<lambda>n. Fin (of_int n)) (cumsum_from 0 (map ((!) ar) (take w (argsort_desc sr)))) =
    map (\<lambda>j. Fin (of_int (top_hits ar sr (Suc j)))) [0..<w]"
proof -
  have len: "length (take w (argsort_desc sr)) = w"
    using assms by (simp add: length_argsort_desc)
  have tk: "take (Suc j) (map ((!) ar) (take w (argsort_desc sr))) =
      map ((!) ar) (take (Suc j) (argsort_desc sr))" if "j < w" for j
    using that by (simp add: take_map min_def)
  have "cumsum_from 0 (map ((!) ar) (take w (argsort_desc sr))) =
      map (\<lambda>j. top_hits ar sr (Suc j)) [0..<w]"
    unfolding cumsum_from_eq using len tk by (simp add: top_hits_def)
  then show ?thesis by (simp add: comp_def)
qed

lemma cumsum_ranked:
  assumes "wf_tensor s" and "w \<le> ncols s"
  shows "to_float (torch_cumsum \<lparr>ncols = w,
         rws = map (\<lambda>(sr, ar). map ((!) ar) (take w (argsort_desc sr))) (zip (rws s) (rws a))\<rparr>) =
    \<lparr>ncols = w,
     rws = map (\<lambda>(sr, ar). map (\<lambda>j. Fin (of_int (top_hits ar sr (Suc j)))) [0..<w])
             (zip (rws s) (rws a))\<rparr>"
proof -
  have "w \<le> length sr" if "(sr, ar) \<in> set (zip (rws s) (rws a))" for sr ar
    using set_zip_leftD [OF that] assms by (simp add: wf_tensor_def list_all_iff)
  then have "map (\<lambda>(sr, ar). map (\<lambda>n. Fin (of_int n))
         (cumsum_from 0 (map ((!) ar) (take w (argsort_desc sr))))) (zip (rws s) (rws a)) =
      map (\<lambda>(sr, ar). map (\<lambda>j. Fin (of_int (top_hits ar sr (Suc j)))) [0..<w])
        (zip (rws s) (rws a))"
    by (intro map_cong refl) (auto simp: cumsum_gathered_row)
  then show ?thesis
    by (simp add: to_float_def torch_cumsum_def comp_def case_prod_unfold)
qed

lemma select_col_ranked:
  assumes "1 \<le> k" and "nat k \<le> w"
  shows "select_col \<lparr>ncols = w, rws = map (\<lambda>(sr, ar). map (g sr ar) [0..<w]) zs\<rparr> (k - 1) =
    Inr (map (\<lambda>(sr, ar). g sr ar (nat k - 1)) zs)"
proof -
  have "nat (k - 1) = nat k - 1" "nat k - 1 < w" "\<not> k - 1 < 0" "k - 1 < int w"
    using assms by auto
  then show ?thesis
    by (simp add: select_col_def Let_def case_prod_unfold)
qed

lemma precision_loop_eq:
  assumes "\<forall>k\<in>set sizes. select_col c (k - 1) = Inr (col k)"
  shows "precision_loop c sizes res =
    Inr (\<lambda>k. if k \<in> set sizes then Some (fmean (map (\<lambda>x. fdiv x k) (col k))) else res k)"
  using assms
proof (induction sizes arbitrary: res)
  case Nil
  then show ?case by simp
next
  case (Cons s ss)
  then show ?case by (simp add: fun_eq_iff)
qed

lemma recall_loop_eq:
  assumes "\<forall>k\<in>set sizes. select_col c (k - 1) = Inr (col k)"
  shows "recall_loop c sizes res =
    Inr (\<lambda>k. if k \<in> set sizes then Some (fmean (col k)) else res k)"
  using assms
proof (induction sizes arbitrary: res)
  case Nil
  then show ?case by simp
next
  case (Cons s ss)
  then show ?case by (simp add: fun_eq_iff)
qed

lemma precision_at_eq:
  assumes "wf_tensor a" and "wf_tensor s" and "same_shape a s" and "valid_sizes (ncols s) sizes"
  shows "precision_at a s sizes =
    Inr (\<lambda>k. if k \<in> set sizes
       then Some (fmean (map (\<lambda>(sr, ar). fdiv (Fin (of_int (top_hits ar sr (nat k)))) k)
                    (zip (rws s) (rws a))))
       else None)"
proof -
  let ?w = "nat (Max (set sizes))"
  let ?zs = "zip (rws s) (rws a)"
  let ?c = "\<lparr>ncols = ?w,
     rws = map (\<lambda>(sr, ar). map (\<lambda>j. Fin (of_int (top_hits ar sr (Suc j)))) [0..<?w]) ?zs\<rparr>"
  note vs = valid_sizes_max [OF assms(4)]
  have g: "torch_gather a (slice_cols (torch_argsort_desc s) (Max (set sizes))) =
    Inr \<lparr>ncols = ?w, rws = map (\<lambda>(sr, ar). map ((!) ar) (take ?w (argsort_desc sr))) ?zs\<rparr>"
    using gather_ranked [OF assms(1-3), of "Max (set sizes)"] by (simp add: vs(2))
  have c: "to_float (torch_cumsum \<lparr>ncols = ?w,
      rws = map (\<lambda>(sr, ar). map ((!) ar) (take ?w (argsort_desc sr))) ?zs\<rparr>) = ?c"
    using assms(2) vs(3) by (rule cumsum_ranked)
  have sel: "\<forall>k\<in>set sizes. select_col ?c (k - 1) =
      Inr (map (\<lambda>(sr, ar). Fin (of_int (top_hits ar sr (nat k)))) ?zs)"
  proof
    fix k assume "k \<in> set sizes"
    with vs(4) have k: "1 \<le> k" "nat k \<le> ?w" by auto
    then have "Suc (nat k - 1) = nat k" by simp
    with select_col_ranked [OF k, of "\<lambda>sr ar j. Fin (of_int (top_hits ar sr (Suc j)))" ?zs]
    show "select_col ?c (k - 1) = Inr (map (\<lambda>(sr, ar). Fin (of_int (top_hits ar sr (nat k)))) ?zs)"
      by simp
  qed
  have "precision_at a s sizes = precision_loop ?c sizes Map.empty"
    by (simp add: precision_at_def Let_def vs(1) g c)
  also have "\<dots> = Inr (\<lambda>k. if k \<in> set sizes
       then Some (fmean (map (\<lambda>x. fdiv x k)
          (map (\<lambda>(sr, ar). Fin (of_int (top_hits ar sr (nat k)))) ?zs)))
       else None)"
    using sel by (rule precision_loop_eq)
  finally show ?thesis by (simp only: map_map comp_def case_prod_unfold)
qed

lemma recall_tensor_eq:
  assumes "wf_tensor a" and "wf_tensor s" and "same_shape a s" and "valid_sizes (ncols s) sizes"
  shows "recall_tensor a s sizes =
    Inr \<lparr>ncols = nat (Max (set sizes)),
         rws = map (\<lambda>(sr, ar). map (\<lambda>j. fdiv (Fin (of_int (top_hits ar sr (Suc j)))) (sum_list ar))
                                  [0..<nat (Max (set sizes))])
                 (zip (rws s) (rws a))\<rparr>"
proof -
  let ?w = "nat (Max (set sizes))"
  let ?zs = "zip (rws s) (rws a)"
  let ?c = "\<lparr>ncols = ?w,
     rws = map (\<lambda>(sr, ar). map (\<lambda>j. Fin (of_int (top_hits ar sr (Suc j)))) [0..<?w]) ?zs\<rparr>"
  note vs = valid_sizes_max [OF assms(4)]
  have len: "length (rws a) = length (rws s)"
    using assms(3) by (simp add: same_shape_def nrows_def)
  have g: "torch_gather a (slice_cols (torch_argsort_desc s) (Max (set sizes))) =
    Inr \<lparr>ncols = ?w, rws = map (\<lambda>(sr, ar). map ((!) ar) (take ?w (argsort_desc sr))) ?zs\<rparr>"
    using gather_ranked [OF assms(1-3), of "Max (set sizes)"] by (simp add: vs(2))
  have c: "to_float (torch_cumsum \<lparr>ncols = ?w,
      rws = map (\<lambda>(sr, ar). map ((!) ar) (take ?w (argsort_desc sr))) ?zs\<rparr>) = ?c"
    using assms(2) vs(3) by (rule cumsum_ranked)
  have rows: "map (\<lambda>(r, n). map (\<lambda>x. fdiv x n) r) (zip (rws ?c) (sum_rows a)) =
      map (\<lambda>(sr, ar). map (\<lambda>j. fdiv (Fin (of_int (top_hits ar sr (Suc j)))) (sum_list ar)) [0..<?w]) ?zs"
    using len by (intro nth_equalityI) (simp_all add: sum_rows_def)
  have "recall_tensor a s sizes = broadcast_div ?c (sum_rows a)"
    by (simp add: recall_tensor_def Let_def vs(1) g c)
  also have "\<dots> = Inr \<lparr>ncols = ?w, rws = map (\<lambda>(r, n). map (\<lambda>x. fdiv x n) r) (zip (rws ?c) (sum_rows a))\<rparr>"
    using len by (simp add: broadcast_div_def nrows_def sum_rows_def)
  finally show ?thesis by (simp only: rows)
qed

lemma recall_at_eq:
  assumes "wf_tensor a" and "wf_tensor s" and "same_shape a s" and "valid_sizes (ncols s) sizes"
  shows "recall_at a s sizes =
    Inr (\<lambda>k. if k \<in> set sizes
       then Some (fmean (map (\<lambda>(sr, ar). fdiv (Fin (of_int (top_hits ar sr (nat k)))) (sum_list ar))
                    (zip (rws s) (rws a))))
       else None)"
proof -
  let ?w = "nat (Max (set sizes))"
  let ?zs = "zip (rws s) (rws a)"
  let ?g = "\<lambda>sr ar j. fdiv (Fin (of_int (top_hits ar sr (Suc j)))) (sum_list ar)"
  let ?r = "\<lparr>ncols = ?w, rws = map (\<lambda>(sr, ar). map (?g sr ar) [0..<?w]) ?zs\<rparr>"
  note vs = valid_sizes_max [OF assms(4)]
  have sel: "\<forall>k\<in>set sizes. select_col ?r (k - 1) =
      Inr (map (\<lambda>(sr, ar). fdiv (Fin (of_int (top_hits ar sr (nat k)))) (sum_list ar)) ?zs)"
  proof
    fix k assume "k \<in> set sizes"
    with vs(4) have k: "1 \<le> k" "nat k \<le> ?w" by auto
    then have "Suc (nat k - 1) = nat k" by simp
    with select_col_ranked [OF k, of ?g ?zs]
    show "select_col ?r (k - 1) =
        Inr (map (\<lambda>(sr, ar). fdiv (Fin (of_int (top_hits ar sr (nat k)))) (sum_list ar)) ?zs)"
      by simp
  qed
  have "recall_at a s sizes = recall_loop ?r sizes Map.empty"
    by (simp add: recall_at_def recall_tensor_eq [OF assms])
  also note recall_loop_eq [OF sel]
  finally show ?thesis .
qed

subsection \<open>Sums and means of floats\<close>

lemma fadd_NaN_right: "fadd x NaN = NaN"
  by (cases x) simp_all

lemma foldl_fadd_NaN: "foldl fadd NaN xs = NaN"
  by (induction xs) simp_all

lemma foldl_fadd_has_NaN: "NaN \<in> set xs \<Longrightarrow> foldl fadd acc xs = NaN"
  by (induction xs arbitrary: acc) (auto simp: fadd_NaN_right foldl_fadd_NaN)

lemma fsum_has_NaN: "NaN \<in> set xs \<Longrightarrow> fsum xs = NaN"
  by (simp add: fsum_def foldl_fadd_has_NaN)

lemma fmean_has_NaN: "NaN \<in> set xs \<Longrightarrow> fmean xs = NaN"
  by (simp add: fmean_def fsum_has_NaN)

lemma foldl_fadd_Fin: "foldl fadd (Fin a) (map Fin qs) = Fin (a + sum_list qs)"
  by (induction qs arbitrary: a) (simp_all add: add.assoc)

lemma fsum_Fin: "fsum (map Fin qs) = Fin (sum_list qs)"
  by (simp add: fsum_def foldl_fadd_Fin)

lemma sum_list_unit_bounds:
  fixes qs :: "rat list"
  assumes "\<forall>q\<in>set qs. 0 \<le> q \<and> q \<le> 1"
  shows "0 \<le> sum_list qs \<and> sum_list qs \<le> of_nat (length qs)"
  using assms by (induction qs) auto

lemma fmean_unit:
  assumes "qs \<noteq> []" and "\<forall>q\<in>set qs. 0 \<le> q \<and> q \<le> 1"
  shows "\<exists>q. fmean (map Fin qs) = Fin q \<and> 0 \<le> q \<and> q \<le> 1"
proof -
  let ?n = "length qs"
  have n: "0 < ?n" using assms(1) by simp
  have b: "0 \<le> sum_list qs" "sum_list qs \<le> of_nat ?n"
    using sum_list_unit_bounds [OF assms(2)] by simp_all
  have "fmean (map Fin qs) = Fin (sum_list qs / of_nat ?n)"
    using n by (simp add: fmean_def fsum_Fin)
  moreover have "0 \<le> sum_list qs / of_nat ?n" using b(1) by simp
  moreover have "sum_list qs / of_nat ?n \<le> 1" using b(2) n by (simp add: divide_le_eq)
  ultimately show ?thesis by blast
qed

lemma argsort_desc_index: "j \<in> set (take k (argsort_desc sr)) \<Longrightarrow> j < length sr"
  using in_set_takeD [of j k "argsort_desc sr"] by (simp add: set_argsort_desc)

lemma top_hits_zero:
  assumes "list_all (\<lambda>x. x = 0) ar" and "length sr = length ar"
  shows "top_hits ar sr k = 0"
proof -
  have "ar ! j = 0" if "j \<in> set (take k (argsort_desc sr))" for j
    using argsort_desc_index [OF that] assms by (simp add: list_all_length)
  then have eq: "map ((!) ar) (take k (argsort_desc sr)) = map (\<lambda>j. 0) (take k (argsort_desc sr))"
    by (intro map_cong refl)
  show ?thesis unfolding top_hits_def eq by simp
qed

lemma sum_list_map_bounds:
  fixes f :: "'a \<Rightarrow> int"
  assumes "\<forall>x\<in>set xs. 0 \<le> f x \<and> f x \<le> 1"
  shows "0 \<le> sum_list (map f xs) \<and> sum_list (map f xs) \<le> int (length xs)"
  using assms by (induction xs) auto

lemma top_hits_bounds:
  assumes "list_all (\<lambda>x. x = 0 \<or> x = 1) ar" and "length sr = length ar"
  shows "0 \<le> top_hits ar sr k" and "top_hits ar sr k \<le> int k"
proof -
  have "0 \<le> ar ! j \<and> ar ! j \<le> 1" if "j \<in> set (take k (argsort_desc sr))" for j
    using argsort_desc_index [OF that] assms by (auto simp: list_all_length)
  then have b: "0 \<le> top_hits ar sr k \<and> top_hits ar sr k \<le> int (length (take k (argsort_desc sr)))"
    unfolding top_hits_def by (intro sum_list_map_bounds) blast
  then show "0 \<le> top_hits ar sr k" by simp
  have "int (length (take k (argsort_desc sr))) \<le> int k" by simp
  with b show "top_hits ar sr k \<le> int k" by linarith
qed

lemma top_hits_mono:
  assumes "list_all (\<lambda>x. x = 0 \<or> x = 1) ar" and "length sr = length ar" and "k1 \<le> k2"
  shows "top_hits ar sr k1 \<le> top_hits ar sr k2"
proof -
  let ?r = "argsort_desc sr"
  have split: "take k2 ?r = take k1 ?r @ drop k1 (take k2 ?r)"
    using assms(3) by (metis append_take_drop_id min.absorb1 take_take)
  have "0 \<le> ar ! j" if "j \<in> set (drop k1 (take k2 ?r))" for j
  proof -
    have "j \<in> set (take k2 ?r)" using that by (rule in_set_dropD)
    from argsort_desc_index [OF this] assms show ?thesis by (auto simp: list_all_length)
  qed
  then have "0 \<le> sum_list (map ((!) ar) (drop k1 (take k2 ?r)))"
    by (intro sum_list_nonneg) auto
  moreover have "top_hits ar sr k2 =
      top_hits ar sr k1 + sum_list (map ((!) ar) (drop k1 (take k2 ?r)))"
    unfolding top_hits_def by (subst split) simp
  ultimately show ?thesis by simp
qed

lemma row_lengths:
  assumes "wf_tensor a" and "wf_tensor s" and "same_shape a s" and "i < nrows a"
  shows "length (rws s ! i) = length (rws a ! i)" and "i < length (rws s)" and "i < length (rws a)"
  using assms by (simp_all add: wf_tensor_def same_shape_def nrows_def list_all_length)

lemma recall_tensor_entry:
  assumes "wf_tensor a" and "wf_tensor s" and "same_shape a s" and "valid_sizes (ncols s) sizes"
    and "i < nrows a" and "k \<in> set sizes"
  shows "\<exists>r. recall_tensor a s sizes = Inr r \<and>
    rws r ! i ! nat (k - 1) =
      fdiv (Fin (of_int (top_hits (rws a ! i) (rws s ! i) (nat k)))) (sum_list (rws a ! i))"
proof -
  note vs = valid_sizes_max [OF assms(4)]
  note rl = row_lengths [OF assms(1-3,5)]
  from vs(4) assms(6) have k: "1 \<le> k" "nat k \<le> nat (Max (set sizes))" by auto
  then have idx: "nat (k - 1) < nat (Max (set sizes))" "Suc (nat (k - 1)) = nat k" by auto
  show ?thesis
    unfolding recall_tensor_eq [OF assms(1-4)] using rl(2,3) idx by simp
qed

text \<open>The definitions a concrete call is evaluated with.\<close>

lemmas eval_defs = precision_at_def recall_at_def recall_tensor_def torch_argsort_desc_def
  argsort_desc_def slice_cols_def slice_stop_def torch_gather_def torch_cumsum_def to_float_def
  select_col_def sum_rows_def broadcast_div_def py_max_def nrows_def fmean_def fsum_def Let_def

lemmas shape_defs = wf_tensor_def same_shape_def nrows_def valid_sizes_def binary_def

subsection \<open>Samples without relevant class in recall_at\<close>

text \<open>
  Claim C5. Let \<open>a\<close> and \<open>s\<close> be matrices of the same shape, \<open>sizes\<close> cutoffs between 1
  and the number of classes, and let row \<open>i\<close> of \<open>a\<close> be all zeros. Then \<^verbatim>\<open>recall_at\<close>
  returns, the recall of sample \<open>i\<close> is \<open>0 / 0 = NaN\<close> at every requested cutoff, and
  the returned batch mean is NaN for every requested cutoff: the division is not masked.
\<close>

theorem recall_at_zero_row:
  assumes "wf_tensor a" and "wf_tensor s" and "same_shape a s" and "valid_sizes (ncols s) sizes"
    and "i < nrows a" and "list_all (\<lambda>x. x = 0) (rws a ! i)"
  shows "\<exists>r m. recall_tensor a s sizes = Inr r \<and> recall_at a s sizes = Inr m \<and>
    (\<forall>k\<in>set sizes. rws r ! i ! nat (k - 1) = NaN \<and> m k = Some NaN)"
proof -
  note rl = row_lengths [OF assms(1-3,5)]
  let ?zs = "zip (rws s) (rws a)"
  let ?v = "\<lambda>k (sr, ar). fdiv (Fin (of_int (top_hits ar sr (nat k)))) (sum_list ar)"
  have zero: "sum_list (rws a ! i) = 0"
  proof -
    have "rws a ! i = map (\<lambda>x. 0) (rws a ! i)"
      using assms(6) by (intro nth_equalityI) (simp_all add: list_all_length)
    then have "sum_list (rws a ! i) = sum_list (map (\<lambda>x. 0::int) (rws a ! i))" by simp
    then show ?thesis by simp
  qed
  have sample: "?v k (?zs ! i) = NaN" for k
    using rl(2,3) zero top_hits_zero [OF assms(6) rl(1)] by simp
  have "?zs ! i \<in> set ?zs" using rl(2,3) by (intro nth_mem) simp
  then have "NaN \<in> set (map (?v k) ?zs)" for k
    using sample [of k] by (metis (no_types, lifting) image_eqI set_map)
  then have mean: "fmean (map (?v k) ?zs) = NaN" for k by (rule fmean_has_NaN)
  obtain r where r: "recall_tensor a s sizes = Inr r"
    using recall_tensor_eq [OF assms(1-4)] by blast
  have entry: "rws r ! i ! nat (k - 1) = NaN" if "k \<in> set sizes" for k
    using recall_tensor_entry [OF assms(1-5) that] r
      zero top_hits_zero [OF assms(6) rl(1)] by simp
  show ?thesis
    unfolding recall_at_eq [OF assms(1-4)] using r entry mean by simp
qed

theorem recall_at_zero_row_witness:
  "wf_tensor \<lparr>ncols = 2, rws = [[0, 0], [1, 0 :: int]]\<rparr> \<and>
   wf_tensor (\<lparr>ncols = 2, rws = [[5, 2], [1, 2]]\<rparr> :: rat tensor2) \<and>
   same_shape \<lparr>ncols = 2, rws = [[0, 0], [1, 0 :: int]]\<rparr> (\<lparr>ncols = 2, rws = [[5, 2], [1, 2]]\<rparr> :: rat tensor2) \<and>
   valid_sizes 2 [1, 2] \<and>
   (\<exists>r m. recall_tensor \<lparr>ncols = 2, rws = [[0, 0], [1, 0]]\<rparr>
            (\<lparr>ncols = 2, rws = [[5, 2], [1, 2]]\<rparr> :: rat tensor2) [1, 2] = Inr r \<and>
          recall_at \<lparr>ncols = 2, rws = [[0, 0], [1, 0]]\<rparr>
            (\<lparr>ncols = 2, rws = [[5, 2], [1, 2]]\<rparr> :: rat tensor2) [1, 2] = Inr m \<and>
          rws r ! 0 ! 0 = NaN \<and> rws r ! 0 ! 1 = NaN \<and> m 1 = Some NaN \<and> m 2 = Some NaN)"
proof -
  let ?a = "\<lparr>ncols = 2, rws = [[0, 0], [1, 0 :: int]]\<rparr>"
  let ?s = "\<lparr>ncols = 2, rws = [[5, 2], [1, 2]]\<rparr> :: rat tensor2"
  have h: "wf_tensor ?a" "wf_tensor ?s" "same_shape ?a ?s" "valid_sizes (ncols ?s) [1, 2]"
    "0 < nrows ?a" "list_all (\<lambda>x. x = 0) (rws ?a ! 0)"
    by (simp_all add: shape_defs)
  from recall_at_zero_row [OF h] h show ?thesis by simp blast
qed

subsection \<open>Recall@k is monotone in k\<close>

text \<open>
  Claim C9, as the code has it. For matrices of the same shape, a binary relevance matrix
  and cutoffs between 1 and the number of classes: the recall of a sample with at least
  one relevant class does not decrease from a requested cutoff \<open>k1\<close> to a requested cutoff
  \<open>k2 \<ge> k1\<close>. (A sample without relevant class has the recall NaN at every cutoff, and
  NaN is not below NaN.)
\<close>

theorem recall_monotone:
  assumes "wf_tensor a" and "wf_tensor s" and "same_shape a s" and "binary a"
    and "valid_sizes (ncols s) sizes" and "i < nrows a" and "0 < sum_list (rws a ! i)"
    and "k1 \<in> set sizes" and "k2 \<in> set sizes" and "k1 \<le> k2"
  shows "\<exists>r. recall_tensor a s sizes = Inr r \<and>
    fle (rws r ! i ! nat (k1 - 1)) (rws r ! i ! nat (k2 - 1))"
proof -
  note rl = row_lengths [OF assms(1-3,6)]
  have b: "list_all (\<lambda>x. x = 0 \<or> x = 1) (rws a ! i)"
    using assms(4) rl(3) by (simp add: binary_def list_all_length)
  have "nat k1 \<le> nat k2" using assms(10) by simp
  from top_hits_mono [OF b rl(1) this]
  have h: "(of_int (top_hits (rws a ! i) (rws s ! i) (nat k1)) :: rat)
      \<le> of_int (top_hits (rws a ! i) (rws s ! i) (nat k2))"
    by (simp only: of_int_le_iff)
  obtain r where r: "recall_tensor a s sizes = Inr r"
    using recall_tensor_eq [OF assms(1-3,5)] by blast
  have "fle (rws r ! i ! nat (k1 - 1)) (rws r ! i ! nat (k2 - 1))"
    using recall_tensor_entry [OF assms(1-3,5,6,8)] recall_tensor_entry [OF assms(1-3,5,6,9)]
      r h assms(7) by (simp add: divide_right_mono)
  with r show ?thesis by blast
qed

theorem recall_monotone_witness:
  "wf_tensor \<lparr>ncols = 4, rws = [[1, 0, 0, 1 :: int]]\<rparr> \<and>
   wf_tensor (\<lparr>ncols = 4, rws = [[9/10, 1/10, 2/10, 8/10]]\<rparr> :: rat tensor2) \<and>
   binary \<lparr>ncols = 4, rws = [[1, 0, 0, 1 :: int]]\<rparr> \<and> valid_sizes 4 [1, 2] \<and>
   (\<exists>r. recall_tensor \<lparr>ncols = 4, rws = [[1, 0, 0, 1]]\<rparr>
          (\<lparr>ncols = 4, rws = [[9/10, 1/10, 2/10, 8/10]]\<rparr> :: rat tensor2) [1, 2] = Inr r \<and>
        fle (rws r ! 0 ! 0) (rws r ! 0 ! 1))"
proof -
  let ?a = "\<lparr>ncols = 4, rws = [[1, 0, 0, 1 :: int]]\<rparr>"
  let ?s = "\<lparr>ncols = 4, rws = [[9/10, 1/10, 2/10, 8/10]]\<rparr> :: rat tensor2"
  have h: "wf_tensor ?a" "wf_tensor ?s" "same_shape ?a ?s" "binary ?a"
    "valid_sizes (ncols ?s) [1, 2]" "0 < nrows ?a" "0 < sum_list (rws ?a ! 0)"
    "1 \<in> set [1, 2 :: int]" "2 \<in> set [1, 2 :: int]" "(1 :: int) \<le> 2"
    by (simp_all add: shape_defs)
  from recall_monotone [OF h] h show ?thesis by simp
qed

text \<open>Against C9 as stated: for the sample \<open>[0, 0]\<close> the recalls at the cutoffs 1 and 2 are
  both NaN, and \<^verbatim>\<open>NaN <= NaN\<close> is false.\<close>

theorem recall_zero_row_unordered:
  "recall_tensor \<lparr>ncols = 2, rws = [[0, 0]]\<rparr> (\<lparr>ncols = 2, rws = [[5, 2]]\<rparr> :: rat tensor2) [1, 2]
     = Inr \<lparr>ncols = 2, rws = [[NaN, NaN]]\<rparr> \<and> \<not> fle NaN NaN"
  by (simp add: eval_defs)

subsection \<open>The range of precision_at\<close>

text \<open>
  Claim C10, as the code has it. For a binary relevance matrix and a score matrix of the
  same shape with at least one sample, and cutoffs between 1 and the number of classes,
  \<^verbatim>\<open>precision_at\<close> returns a map whose keys are the requested cutoffs and whose values
  are numbers between 0 and 1, never NaN; samples without relevant class are included.
  (For a batch without samples the mean over the samples is \<open>0 / 0\<close>.)
\<close>

theorem precision_at_unit_interval:
  assumes "wf_tensor a" and "wf_tensor s" and "same_shape a s" and "binary a"
    and "valid_sizes (ncols s) sizes" and "0 < nrows a"
  shows "\<exists>m. precision_at a s sizes = Inr m \<and> dom m = set sizes \<and>
    (\<forall>k\<in>set sizes. \<exists>q. m k = Some (Fin q) \<and> 0 \<le> q \<and> q \<le> 1)"
proof -
  let ?zs = "zip (rws s) (rws a)"
  let ?q = "\<lambda>k (sr, ar). (of_int (top_hits ar sr (nat k)) :: rat) / of_int k"
  note vs = valid_sizes_max [OF assms(5)]
  have len: "length (rws a) = length (rws s)"
    using assms(3) by (simp add: same_shape_def nrows_def)
  have ne: "map (?q k) ?zs \<noteq> []" for k
    using assms(6) len by (cases "rws a"; cases "rws s") (simp_all add: nrows_def)
  have mean: "\<exists>q. fmean (map (\<lambda>(sr, ar). fdiv (Fin (of_int (top_hits ar sr (nat k)))) k) ?zs) = Fin q
      \<and> 0 \<le> q \<and> q \<le> 1" if "k \<in> set sizes" for k
  proof -
    from vs(4) that have k: "1 \<le> k" by auto
    have unit: "\<forall>q\<in>set (map (?q k) ?zs). 0 \<le> q \<and> q \<le> 1"
    proof
      fix q assume "q \<in> set (map (?q k) ?zs)"
      then obtain sr ar where m: "(sr, ar) \<in> set ?zs"
        and q: "q = of_int (top_hits ar sr (nat k)) / of_int k" by auto
      have "sr \<in> set (rws s)" "ar \<in> set (rws a)"
        using m by (auto dest: set_zip_leftD set_zip_rightD)
      then have l: "length sr = length ar" and b: "list_all (\<lambda>x. x = 0 \<or> x = 1) ar"
        using assms(1-4) by (simp_all add: wf_tensor_def same_shape_def binary_def list_all_iff)
      from top_hits_bounds [OF b l, of "nat k"] k
      have "0 \<le> top_hits ar sr (nat k)" "top_hits ar sr (nat k) \<le> k" by simp_all
      then have "0 \<le> (of_int (top_hits ar sr (nat k)) :: rat)"
        and "(of_int (top_hits ar sr (nat k)) :: rat) \<le> of_int k"
        by (simp_all only: of_int_0_le_iff of_int_le_iff)
      with k show "0 \<le> q \<and> q \<le> 1" unfolding q by (simp add: divide_le_eq)
    qed
    have "map (\<lambda>(sr, ar). fdiv (Fin (of_int (top_hits ar sr (nat k)))) k) ?zs =
        map Fin (map (?q k) ?zs)"
      using k by (simp add: case_prod_unfold)
    then show ?thesis using fmean_unit [OF ne unit] by (simp only:)
  qed
  show ?thesis
    unfolding precision_at_eq [OF assms(1-3,5)] using mean
    by (auto simp: dom_def split: if_splits)
qed

theorem precision_at_unit_interval_witness:
  "wf_tensor \<lparr>ncols = 4, rws = [[1, 0, 0, 1 :: int]]\<rparr> \<and>
   wf_tensor (\<lparr>ncols = 4, rws = [[9/10, 1/10, 2/10, 8/10]]\<rparr> :: rat tensor2) \<and>
   binary \<lparr>ncols = 4, rws = [[1, 0, 0, 1 :: int]]\<rparr> \<and> valid_sizes 4 [1, 2] \<and>
   (\<exists>m. precision_at \<lparr>ncols = 4, rws = [[1, 0, 0, 1]]\<rparr>
          (\<lparr>ncols = 4, rws = [[9/10, 1/10, 2/10, 8/10]]\<rparr> :: rat tensor2) [1, 2] = Inr m \<and>
        dom m = {1, 2} \<and>
        (\<exists>q. m 1 = Some (Fin q) \<and> 0 \<le> q \<and> q \<le> 1) \<and>
        (\<exists>q. m 2 = Some (Fin q) \<and> 0 \<le> q \<and> q \<le> 1))"
proof -
  let ?a = "\<lparr>ncols = 4, rws = [[1, 0, 0, 1 :: int]]\<rparr>"
  let ?s = "\<lparr>ncols = 4, rws = [[9/10, 1/10, 2/10, 8/10]]\<rparr> :: rat tensor2"
  have h: "wf_tensor ?a" "wf_tensor ?s" "same_shape ?a ?s" "binary ?a"
    "valid_sizes (ncols ?s) [1, 2]" "0 < nrows ?a"
    by (simp_all add: shape_defs)
  from precision_at_unit_interval [OF h] h show ?thesis by simp
qed

text \<open>Against C10 as stated: on a batch of shape \<open>(0, 1)\<close> the value at cutoff 1 is NaN.\<close>

theorem precision_at_empty_batch:
  "precision_at \<lparr>ncols = 1, rws = []\<rparr> (\<lparr>ncols = 1, rws = []\<rparr> :: rat tensor2) [1] = Inr [1 \<mapsto> NaN]"
  by (simp add: eval_defs)

subsection \<open>The ranking and tied scores\<close>

lemma precision_at_by_stable: "precision_at_by argsort_desc a s sizes = precision_at a s sizes"
  by (simp add: precision_at_by_def precision_at_def torch_argsort_by_def torch_argsort_desc_def)

lemma recall_at_by_stable: "recall_at_by argsort_desc a s sizes = recall_at a s sizes"
  by (simp add: recall_at_by_def recall_at_def recall_tensor_def torch_argsort_by_def
      torch_argsort_desc_def Let_def split: sum.splits)

lemma desc_ranking_argsort_desc: "desc_ranking argsort_desc"
proof -
  have "sorted_wrt (\<lambda>i j. sc ! j \<le> sc ! i) (argsort_desc sc)" for sc :: "'a list"
    using sorted_argsort_desc [of sc]
    by (rule sorted_wrt_mono_rel [rotated]) (auto simp: ranked_before_def)
  then show ?thesis
    by (simp add: desc_ranking_def distinct_argsort_desc set_argsort_desc)
qed

lemma desc_ranking_facts:
  assumes "desc_ranking argsort"
  shows "distinct (argsort sc)" and "set (argsort sc) = {0..<length sc}"
    and "length (argsort sc) = length sc"
proof -
  show d: "distinct (argsort sc)" and s: "set (argsort sc) = {0..<length sc}"
    using assms by (simp_all add: desc_ranking_def)
  from distinct_card [OF d] s show "length (argsort sc) = length sc" by simp
qed

lemma gather_by:
  assumes "desc_ranking argsort" and "wf_tensor a" and "wf_tensor s" and "same_shape a s"
  shows "torch_gather a (slice_cols (torch_argsort_by argsort s) m) =
    Inr \<lparr>ncols = slice_stop (ncols s) m,
         rws = map (\<lambda>(sr, ar). map ((!) ar) (take (slice_stop (ncols s) m) (argsort sr)))
                 (zip (rws s) (rws a))\<rparr>"
proof -
  let ?w = "slice_stop (ncols s) m"
  have len: "length (rws a) = length (rws s)"
    using assms(4) by (simp add: same_shape_def nrows_def)
  have valid: "list_all (list_all (\<lambda>j. j < ncols a)) (map (take ?w) (map argsort (rws s)))"
  proof -
    have "j < ncols a" if "sr \<in> set (rws s)" and "j \<in> set (take ?w (argsort sr))" for sr j
    proof -
      have "j \<in> set (argsort sr)" using that(2) by (rule in_set_takeD)
      then have "j < length sr" by (simp add: desc_ranking_facts(2) [OF assms(1)])
      moreover have "length sr = ncols s"
        using that(1) assms(3) by (simp add: wf_tensor_def list_all_iff)
      ultimately show ?thesis using assms(4) by (simp add: same_shape_def)
    qed
    then show ?thesis by (auto simp: list_all_iff)
  qed
  have rows: "map (\<lambda>(ir, ar). map ((!) ar) ir) (zip (map (take ?w) (map argsort (rws s))) (rws a))
      = map (\<lambda>(sr, ar). map ((!) ar) (take ?w (argsort sr))) (zip (rws s) (rws a))"
    by (simp add: zip_map1 comp_def case_prod_unfold)
  show ?thesis
  proof (cases "nrows s = 0 \<or> ?w = 0")
    case True
    then have "map (\<lambda>r. []) (map (take ?w) (map argsort (rws s)))
      = map (\<lambda>(sr, ar). map ((!) ar) (take ?w (argsort sr))) (zip (rws s) (rws a))"
      using len by (auto simp: nrows_def intro!: nth_equalityI)
    with True show ?thesis
      by (auto simp: torch_gather_def slice_cols_def torch_argsort_by_def nrows_def)
  next
    case False
    with valid rows len show ?thesis
      by (simp add: torch_gather_def slice_cols_def torch_argsort_by_def nrows_def)
  qed
qed

lemma cumsum_gathered_row_by:
  assumes "desc_ranking argsort" and "w \<le> length sr"
  shows "map (\<lambda>n. Fin (of_int n)) (cumsum_from 0 (map ((!) ar) (take w (argsort sr)))) =
    map (\<lambda>j. Fin (of_int (hits_by argsort ar sr (Suc j)))) [0..<w]"
proof -
  have len: "length (take w (argsort sr)) = w"
    using assms(2) by (simp add: desc_ranking_facts(3) [OF assms(1)])
  have tk: "take (Suc j) (map ((!) ar) (take w (argsort sr))) =
      map ((!) ar) (take (Suc j) (argsort sr))" if "j < w" for j
    using that by (simp add: take_map min_def)
  have "cumsum_from 0 (map ((!) ar) (take w (argsort sr))) =
      map (\<lambda>j. hits_by argsort ar sr (Suc j)) [0..<w]"
    unfolding cumsum_from_eq using len tk by (simp add: hits_by_def)
  then show ?thesis by (simp add: comp_def)
qed

lemma cumsum_by:
  assumes "desc_ranking argsort" and "wf_tensor s" and "w \<le> ncols s"
  shows "to_float (torch_cumsum \<lparr>ncols = w,
         rws = map (\<lambda>(sr, ar). map ((!) ar) (take w (argsort sr))) (zip (rws s) (rws a))\<rparr>) =
    \<lparr>ncols = w,
     rws = map (\<lambda>(sr, ar). map (\<lambda>j. Fin (of_int (hits_by argsort ar sr (Suc j)))) [0..<w])
             (zip (rws s) (rws a))\<rparr>"
proof -
  have "w \<le> length sr" if "(sr, ar) \<in> set (zip (rws s) (rws a))" for sr ar
    using set_zip_leftD [OF that] assms(2,3) by (simp add: wf_tensor_def list_all_iff)
  then have "map (\<lambda>(sr, ar). map (\<lambda>n. Fin (of_int n))
         (cumsum_from 0 (map ((!) ar) (take w (argsort sr))))) (zip (rws s) (rws a)) =
      map (\<lambda>(sr, ar). map (\<lambda>j. Fin (of_int (hits_by argsort ar sr (Suc j)))) [0..<w])
        (zip (rws s) (rws a))"
    by (intro map_cong refl) (auto simp: cumsum_gathered_row_by [OF assms(1)])
  then show ?thesis
    by (simp add: to_float_def torch_cumsum_def comp_def case_prod_unfold)
qed

lemma precision_at_by_eq:
  assumes "desc_ranking argsort" and "wf_tensor a" and "wf_tensor s" and "same_shape a s"
    and "valid_sizes (ncols s) sizes"
  shows "precision_at_by argsort a s sizes =
    Inr (\<lambda>k. if k \<in> set sizes
       then Some (fmean (map (\<lambda>(sr, ar). fdiv (Fin (of_int (hits_by argsort ar sr (nat k)))) k)
                    (zip (rws s) (rws a))))
       else None)"
proof -
  let ?w = "nat (Max (set sizes))"
  let ?zs = "zip (rws s) (rws a)"
  let ?c = "\<lparr>ncols = ?w,
     rws = map (\<lambda>(sr, ar). map (\<lambda>j. Fin (of_int (hits_by argsort ar sr (Suc j)))) [0..<?w]) ?zs\<rparr>"
  note vs = valid_sizes_max [OF assms(5)]
  have g: "torch_gather a (slice_cols (torch_argsort_by argsort s) (Max (set sizes))) =
    Inr \<lparr>ncols = ?w, rws = map (\<lambda>(sr, ar). map ((!) ar) (take ?w (argsort sr))) ?zs\<rparr>"
    using gather_by [OF assms(1-4), of "Max (set sizes)"] by (simp add: vs(2))
  have c: "to_float (torch_cumsum \<lparr>ncols = ?w,
      rws = map (\<lambda>(sr, ar). map ((!) ar) (take ?w (argsort sr))) ?zs\<rparr>) = ?c"
    using assms(1,3) vs(3) by (rule cumsum_by)
  have sel: "\<forall>k\<in>set sizes. select_col ?c (k - 1) =
      Inr (map (\<lambda>(sr, ar). Fin (of_int (hits_by argsort ar sr (nat k)))) ?zs)"
  proof
    fix k assume "k \<in> set sizes"
    with vs(4) have k: "1 \<le> k" "nat k \<le> ?w" by auto
    then have "Suc (nat k - 1) = nat k" by simp
    with select_col_ranked [OF k, of "\<lambda>sr ar j. Fin (of_int (hits_by argsort ar sr (Suc j)))" ?zs]
    show "select_col ?c (k - 1) = Inr (map (\<lambda>(sr, ar). Fin (of_int (hits_by argsort ar sr (nat k)))) ?zs)"
      by simp
  qed
  have "precision_at_by argsort a s sizes = precision_loop ?c sizes Map.empty"
    by (simp add: precision_at_by_def Let_def vs(1) g c)
  also have "\<dots> = Inr (\<lambda>k. if k \<in> set sizes
       then Some (fmean (map (\<lambda>x. fdiv x k)
          (map (\<lambda>(sr, ar). Fin (of_int (hits_by argsort ar sr (nat k)))) ?zs)))
       else None)"
    using sel by (rule precision_loop_eq)
  finally show ?thesis by (simp only: map_map comp_def case_prod_unfold)
qed

lemma recall_at_by_eq:
  assumes "desc_ranking argsort" and "wf_tensor a" and "wf_tensor s" and "same_shape a s"
    and "valid_sizes (ncols s) sizes"
  shows "recall_at_by argsort a s sizes =
    Inr (\<lambda>k. if k \<in> set sizes
       then Some (fmean (map (\<lambda>(sr, ar). fdiv (Fin (of_int (hits_by argsort ar sr (nat k)))) (sum_list ar))
                    (zip (rws s) (rws a))))
       else None)"
proof -
  let ?w = "nat (Max (set sizes))"
  let ?zs = "zip (rws s) (rws a)"
  let ?c = "\<lparr>ncols = ?w,
     rws = map (\<lambda>(sr, ar). map (\<lambda>j. Fin (of_int (hits_by argsort ar sr (Suc j)))) [0..<?w]) ?zs\<rparr>"
  let ?g = "\<lambda>sr ar j. fdiv (Fin (of_int (hits_by argsort ar sr (Suc j)))) (sum_list ar)"
  let ?r = "\<lparr>ncols = ?w, rws = map (\<lambda>(sr, ar). map (?g sr ar) [0..<?w]) ?zs\<rparr>"
  note vs = valid_sizes_max [OF assms(5)]
  have len: "length (rws a) = length (rws s)"
    using assms(4) by (simp add: same_shape_def nrows_def)
  have g: "torch_gather a (slice_cols (torch_argsort_by argsort s) (Max (set sizes))) =
    Inr \<lparr>ncols = ?w, rws = map (\<lambda>(sr, ar). map ((!) ar) (take ?w (argsort sr))) ?zs\<rparr>"
    using gather_by [OF assms(1-4), of "Max (set sizes)"] by (simp add: vs(2))
  have c: "to_float (torch_cumsum \<lparr>ncols = ?w,
      rws = map (\<lambda>(sr, ar). map ((!) ar) (take ?w (argsort sr))) ?zs\<rparr>) = ?c"
    using assms(1,3) vs(3) by (rule cumsum_by)
  have rows: "map (\<lambda>(r, n). map (\<lambda>x. fdiv x n) r) (zip (rws ?c) (sum_rows a)) = rws ?r"
    using len by (intro nth_equalityI) (simp_all add: sum_rows_def)
  have b: "broadcast_div ?c (sum_rows a) = Inr ?r"
  proof -
    have "broadcast_div ?c (sum_rows a) =
        Inr \<lparr>ncols = ?w, rws = map (\<lambda>(r, n). map (\<lambda>x. fdiv x n) r) (zip (rws ?c) (sum_rows a))\<rparr>"
      using len by (simp add: broadcast_div_def nrows_def sum_rows_def)
    then show ?thesis by (simp only: rows) simp
  qed
  have sel: "\<forall>k\<in>set sizes. select_col ?r (k - 1) =
      Inr (map (\<lambda>(sr, ar). fdiv (Fin (of_int (hits_by argsort ar sr (nat k)))) (sum_list ar)) ?zs)"
  proof
    fix k assume "k \<in> set sizes"
    with vs(4) have k: "1 \<le> k" "nat k \<le> ?w" by auto
    then have "Suc (nat k - 1) = nat k" by simp
    with select_col_ranked [OF k, of ?g ?zs]
    show "select_col ?r (k - 1) =
        Inr (map (\<lambda>(sr, ar). fdiv (Fin (of_int (hits_by argsort ar sr (nat k)))) (sum_list ar)) ?zs)"
      by simp
  qed
  have "recall_at_by argsort a s sizes = recall_loop ?r sizes Map.empty"
    by (simp add: recall_at_by_def Let_def vs(1) g c b)
  also note recall_loop_eq [OF sel]
  finally show ?thesis .
qed

lemma sum_list_ranking:
  fixes ar :: "int list"
  assumes "desc_ranking argsort" and "length sr = length ar"
  shows "sum_list (map ((!) ar) (argsort sr)) = sum_list ar"
proof -
  note f = desc_ranking_facts [OF assms(1), of sr]
  have "sum_list (map ((!) ar) (argsort sr)) = sum ((!) ar) {0..<length ar}"
    using sum_list_distinct_conv_sum_set [OF f(1), of "(!) ar"] f(2) assms(2) by simp
  also have "\<dots> = sum_list (map ((!) ar) [0..<length ar])"
    using sum_list_distinct_conv_sum_set [of "[0..<length ar]" "(!) ar"] by simp
  also have "\<dots> = sum_list ar" by (simp add: map_nth)
  finally show ?thesis .
qed

lemma hits_by_bounds:
  assumes "desc_ranking argsort" and "list_all (\<lambda>x. x = 0 \<or> x = 1) ar"
    and "length sr = length ar" and "k \<le> length ar"
  shows "0 \<le> hits_by argsort ar sr k" and "hits_by argsort ar sr k \<le> int k"
    and "hits_by argsort ar sr k \<le> sum_list ar"
    and "int k - (int (length ar) - sum_list ar) \<le> hits_by argsort ar sr k"
proof -
  let ?p = "argsort sr"
  note f = desc_ranking_facts [OF assms(1), of sr]
  have unit: "0 \<le> ar ! j \<and> ar ! j \<le> 1" if "j \<in> set ?p" for j
    using that f(2) assms(2,3) by (auto simp: list_all_length)
  have t: "0 \<le> sum_list (map ((!) ar) (take k ?p)) \<and>
      sum_list (map ((!) ar) (take k ?p)) \<le> int (length (take k ?p))"
    by (intro sum_list_map_bounds) (auto dest: in_set_takeD unit)
  have d: "0 \<le> sum_list (map ((!) ar) (drop k ?p)) \<and>
      sum_list (map ((!) ar) (drop k ?p)) \<le> int (length (drop k ?p))"
    by (intro sum_list_map_bounds) (auto dest: in_set_dropD unit)
  have "sum_list (map ((!) ar) (take k ?p)) + sum_list (map ((!) ar) (drop k ?p)) =
      sum_list (map ((!) ar) (take k ?p @ drop k ?p))"
    by (simp only: map_append sum_list_append)
  then have split: "hits_by argsort ar sr k + sum_list (map ((!) ar) (drop k ?p)) = sum_list ar"
    by (simp add: hits_by_def sum_list_ranking [OF assms(1,3)])
  have lt: "length (take k ?p) = k" "length (drop k ?p) = length ar - k"
    using assms(3,4) f(3) by simp_all
  show "0 \<le> hits_by argsort ar sr k" using t by (simp add: hits_by_def)
  show "hits_by argsort ar sr k \<le> int k" using t lt(1) by (simp add: hits_by_def)
  show "hits_by argsort ar sr k \<le> sum_list ar" using split d by linarith
  show "int k - (int (length ar) - sum_list ar) \<le> hits_by argsort ar sr k"
    using split d lt(2) assms(4) by (simp add: of_nat_diff) 
qed

text \<open>
  Claim C1, as the code has it. Let \<open>argsort\<close> be any ranking \<^verbatim>\<open>torch.argsort\<close> may
  return: a permutation of the class indices of a row along which the scores do not
  increase, in whatever order it puts equal scores. For a binary relevance matrix and a
  score matrix of the same shape, and cutoffs between 1 and the number of classes,
  \<^verbatim>\<open>precision_at\<close> and \<^verbatim>\<open>recall_at\<close> return, for every requested cutoff \<open>k\<close>, the batch
  mean of the number of true labels among the \<open>k\<close> first classes of the ranking, over
  \<open>k\<close> and over the number of true labels of the sample. That number is at most the
  number of true labels clipped to \<open>k\<close>, and at least \<open>k\<close> minus the number of false
  labels; where it lies for tied scores is decided by the ranking. The result is a
  function of the input and of the ranking.
\<close>

theorem precision_at_any_ranking:
  fixes s :: "('s::linorder) tensor2"
  assumes "desc_ranking argsort" and "wf_tensor a" and "wf_tensor s" and "same_shape a s"
    and "binary a" and "valid_sizes (ncols s) sizes"
  shows "precision_at_by argsort a s sizes =
      Inr (\<lambda>k. if k \<in> set sizes
         then Some (fmean (map (\<lambda>(sr, ar). fdiv (Fin (of_int (hits_by argsort ar sr (nat k)))) k)
                      (zip (rws s) (rws a))))
         else None) \<and>
    recall_at_by argsort a s sizes =
      Inr (\<lambda>k. if k \<in> set sizes
         then Some (fmean (map (\<lambda>(sr, ar). fdiv (Fin (of_int (hits_by argsort ar sr (nat k))))
                                  (sum_list ar))
                      (zip (rws s) (rws a))))
         else None) \<and>
    (\<forall>k\<in>set sizes. \<forall>(sr, ar)\<in>set (zip (rws s) (rws a)).
        max 0 (k - (int (length ar) - sum_list ar)) \<le> hits_by argsort ar sr (nat k) \<and>
        hits_by argsort ar sr (nat k) \<le> min (sum_list ar) k)"
proof (intro conjI ballI)
  show "precision_at_by argsort a s sizes =
      Inr (\<lambda>k. if k \<in> set sizes
         then Some (fmean (map (\<lambda>(sr, ar). fdiv (Fin (of_int (hits_by argsort ar sr (nat k)))) k)
                      (zip (rws s) (rws a))))
         else None)"
    using assms(1-4,6) by (rule precision_at_by_eq)
next
  show "recall_at_by argsort a s sizes =
      Inr (\<lambda>k. if k \<in> set sizes
         then Some (fmean (map (\<lambda>(sr, ar). fdiv (Fin (of_int (hits_by argsort ar sr (nat k))))
                                  (sum_list ar))
                      (zip (rws s) (rws a))))
         else None)"
    using assms(1-4,6) by (rule recall_at_by_eq)
next
  fix k p assume k: "k \<in> set sizes" and p: "p \<in> set (zip (rws s) (rws a))"
  obtain sr ar where pe: "p = (sr, ar)" by (cases p)
  from p pe have m: "sr \<in> set (rws s)" "ar \<in> set (rws a)"
    by (auto dest: set_zip_leftD set_zip_rightD)
  then have l: "length sr = length ar" "length ar = ncols s"
    and b: "list_all (\<lambda>x. x = 0 \<or> x = 1) ar"
    using assms(2-5) by (simp_all add: wf_tensor_def same_shape_def binary_def list_all_iff)
  from assms(6) k have kr: "1 \<le> k" "k \<le> int (ncols s)"
    by (simp_all add: valid_sizes_def list_all_iff)
  then have kn: "nat k \<le> length ar" "int (nat k) = k" using l(2) by simp_all
  note h = hits_by_bounds [OF assms(1) b l(1) kn(1), unfolded kn(2)]
  from h show "case p of (sr, ar) \<Rightarrow>
      max 0 (k - (int (length ar) - sum_list ar)) \<le> hits_by argsort ar sr (nat k) \<and>
      hits_by argsort ar sr (nat k) \<le> min (sum_list ar) k"
    by (simp add: pe)
qed

theorem precision_at_any_ranking_witness:
  "desc_ranking (argsort_desc :: rat list \<Rightarrow> nat list) \<and>
   wf_tensor \<lparr>ncols = 3, rws = [[0, 0, 1], [1, 1, 0 :: int]]\<rparr> \<and>
   wf_tensor (\<lparr>ncols = 3, rws = [[7, 7, 7], [3, 1, 2]]\<rparr> :: rat tensor2) \<and>
   binary \<lparr>ncols = 3, rws = [[0, 0, 1], [1, 1, 0 :: int]]\<rparr> \<and>
   valid_sizes 3 [1, 2] \<and>
   (\<exists>m. precision_at_by argsort_desc \<lparr>ncols = 3, rws = [[0, 0, 1], [1, 1, 0]]\<rparr>
          (\<lparr>ncols = 3, rws = [[7, 7, 7], [3, 1, 2]]\<rparr> :: rat tensor2) [1, 2] = Inr m \<and>
        m 1 = Some (fmean [fdiv (Fin (of_int (hits_by argsort_desc [0, 0, 1] [7, 7, 7 :: rat] 1))) 1,
                          fdiv (Fin (of_int (hits_by argsort_desc [1, 1, 0] [3, 1, 2 :: rat] 1))) 1])) \<and>
   hits_by argsort_desc [0, 0, 1] [7, 7, 7 :: rat] 1 \<le> min (sum_list [0, 0, 1]) 1"
proof -
  let ?a = "\<lparr>ncols = 3, rws = [[0, 0, 1], [1, 1, 0 :: int]]\<rparr>"
  let ?s = "\<lparr>ncols = 3, rws = [[7, 7, 7], [3, 1, 2]]\<rparr> :: rat tensor2"
  have h: "desc_ranking (argsort_desc :: rat list \<Rightarrow> nat list)"
    "wf_tensor ?a" "wf_tensor ?s" "same_shape ?a ?s" "binary ?a" "valid_sizes (ncols ?s) [1, 2]"
    by (simp_all add: shape_defs desc_ranking_argsort_desc)
  from precision_at_any_ranking [OF h] h show ?thesis by simp
qed

lemma list_of_length_two:
  assumes "length xs = 2"
  obtains x y where "xs = [x, y]"
proof -
  from assms obtain x ys where xs: "xs = x # ys" by (cases xs) auto
  with assms have "length ys = 1" by simp
  then obtain y where "ys = [y]" by (cases ys) auto
  with xs that show thesis by simp
qed

lemma single_sample_precision:
  fixes argsort :: "rat list \<Rightarrow> nat list"
  assumes "desc_ranking argsort" and "length ar = 2"
    and "precision_at_by argsort \<lparr>ncols = 2, rws = [ar]\<rparr> \<lparr>ncols = 2, rws = [[0, 0]]\<rparr> [1]
      = Inr [1 \<mapsto> Fin 1]"
  shows "hits_by argsort ar [0, 0] 1 = 1"
proof -
  let ?a = "\<lparr>ncols = 2, rws = [ar]\<rparr>"
  let ?s = "\<lparr>ncols = 2, rws = [[0, 0]]\<rparr> :: rat tensor2"
  let ?f = "\<lambda>k. if k \<in> set [1]
         then Some (fmean (map (\<lambda>(sr, ar). fdiv (Fin (of_int (hits_by argsort ar sr (nat k)))) k)
                      (zip (rws ?s) (rws ?a))))
         else None"
  have h: "wf_tensor ?a" "wf_tensor ?s" "same_shape ?a ?s" "valid_sizes (ncols ?s) [1]"
    using assms(2) by (simp_all add: shape_defs)
  have "precision_at_by argsort ?a ?s [1] = Inr ?f"
    using assms(1) h by (rule precision_at_by_eq)
  with assms(3) have "Inr ?f = (Inr [1 \<mapsto> Fin 1] :: error + (int \<rightharpoonup> fval))"
    by (simp only:)
  then have "?f = [1 \<mapsto> Fin 1]" by (simp only: sum.inject)
  from fun_cong [OF this, of 1] show ?thesis by (simp add: fmean_def fsum_def)
qed

text \<open>Against C1 as stated: on the tied scores \<open>[0, 0]\<close> the samples \<open>[1, 0]\<close> and
  \<open>[0, 1]\<close> both have one true label, so the claimed precision at 1 is 1 for both; no
  ranking gives it to both, since the class ranked first does not depend on the labels.\<close>

theorem no_ranking_gives_clipped_precision:
  "\<not> (\<exists>argsort :: rat list \<Rightarrow> nat list. desc_ranking argsort \<and>
        precision_at_by argsort \<lparr>ncols = 2, rws = [[1, 0]]\<rparr> \<lparr>ncols = 2, rws = [[0, 0]]\<rparr> [1]
          = Inr [1 \<mapsto> Fin 1] \<and>
        precision_at_by argsort \<lparr>ncols = 2, rws = [[0, 1]]\<rparr> \<lparr>ncols = 2, rws = [[0, 0]]\<rparr> [1]
          = Inr [1 \<mapsto> Fin 1])"
proof
  assume "\<exists>argsort :: rat list \<Rightarrow> nat list. desc_ranking argsort \<and>
        precision_at_by argsort \<lparr>ncols = 2, rws = [[1, 0]]\<rparr> \<lparr>ncols = 2, rws = [[0, 0]]\<rparr> [1]
          = Inr [1 \<mapsto> Fin 1] \<and>
        precision_at_by argsort \<lparr>ncols = 2, rws = [[0, 1]]\<rparr> \<lparr>ncols = 2, rws = [[0, 0]]\<rparr> [1]
          = Inr [1 \<mapsto> Fin 1]"
  then obtain argsort :: "rat list \<Rightarrow> nat list" where r: "desc_ranking argsort"
    and p1: "precision_at_by argsort \<lparr>ncols = 2, rws = [[1, 0]]\<rparr> \<lparr>ncols = 2, rws = [[0, 0]]\<rparr> [1]
          = Inr [1 \<mapsto> Fin 1]"
    and p2: "precision_at_by argsort \<lparr>ncols = 2, rws = [[0, 1]]\<rparr> \<lparr>ncols = 2, rws = [[0, 0]]\<rparr> [1]
          = Inr [1 \<mapsto> Fin 1]"
    by blast
  have "length (argsort [0, 0]) = 2" using desc_ranking_facts(3) [OF r, of "[0, 0]"] by simp
  then obtain x y where xy: "argsort [0, 0] = [x, y]" by (rule list_of_length_two)
  have "x \<in> set (argsort [0, 0])" by (simp add: xy)
  then have "x < 2" by (simp add: desc_ranking_facts(2) [OF r])
  then have x: "x = 0 \<or> x = 1" by linarith
  have h1: "[1, 0 :: int] ! x = 1"
    using single_sample_precision [OF r _ p1] by (simp add: hits_by_def xy)
  have h2: "[0, 1 :: int] ! x = 1"
    using single_sample_precision [OF r _ p2] by (simp add: hits_by_def xy)
  from x show False
  proof
    assume "x = 0" with h2 show False by simp
  next
    assume "x = 1" with h1 show False by simp
  qed
qed

subsection \<open>Invalid cutoffs\<close>

lemma select_col_out_of_range: "int (ncols c) \<le> i \<Longrightarrow> select_col c i = Inl IndexError"
  by (simp add: select_col_def Let_def)

lemma select_col_error: "select_col c i = Inl e \<Longrightarrow> e = IndexError"
  by (auto simp: select_col_def Let_def split: if_splits)

lemma precision_loop_error:
  assumes "k \<in> set sizes" and "select_col c (k - 1) = Inl IndexError"
  shows "precision_loop c sizes res = Inl IndexError"
  using assms
proof (induction sizes arbitrary: res)
  case Nil
  then show ?case by simp
next
  case (Cons x xs)
  show ?case
  proof (cases "select_col c (x - 1)")
    case (Inl e)
    then show ?thesis using select_col_error [OF Inl] by simp
  next
    case (Inr col)
    with Cons.prems have "k \<in> set xs" by auto
    with Cons Inr show ?thesis by simp
  qed
qed

lemma recall_loop_error:
  assumes "k \<in> set sizes" and "select_col c (k - 1) = Inl IndexError"
  shows "recall_loop c sizes res = Inl IndexError"
  using assms
proof (induction sizes arbitrary: res)
  case Nil
  then show ?case by simp
next
  case (Cons x xs)
  show ?case
  proof (cases "select_col c (x - 1)")
    case (Inl e)
    then show ?thesis using select_col_error [OF Inl] by simp
  next
    case (Inr col)
    with Cons.prems have "k \<in> set xs" by auto
    with Cons Inr show ?thesis by simp
  qed
qed

text \<open>
  Claim C7, as the code has it. For matrices of the same shape, a call of
  \<^verbatim>\<open>precision_at\<close> or \<^verbatim>\<open>recall_at\<close> whose \<open>sizes\<close> hold a cutoff greater than the
  number of classes raises IndexError, in the call. (A cutoff below 1 is not checked.)
\<close>

theorem cutoff_above_classes:
  assumes "wf_tensor a" and "wf_tensor s" and "same_shape a s"
    and "k \<in> set sizes" and "int (ncols s) < k"
  shows "precision_at a s sizes = Inl IndexError \<and> recall_at a s sizes = Inl IndexError"
proof -
  let ?m = "Max (set sizes)"
  have ne: "sizes \<noteq> []" using assms(4) by auto
  have "k \<le> ?m" using assms(4) by simp
  with assms(5) have w: "slice_stop (ncols s) ?m = ncols s" by (simp add: slice_stop_def)
  have len: "length (rws a) = length (rws s)"
    using assms(3) by (simp add: same_shape_def nrows_def)
  have g: "torch_gather a (slice_cols (torch_argsort_desc s) ?m) =
    Inr \<lparr>ncols = ncols s,
         rws = map (\<lambda>(sr, ar). map ((!) ar) (take (ncols s) (argsort_desc sr))) (zip (rws s) (rws a))\<rparr>"
    using gather_ranked [OF assms(1-3), of ?m] by (simp only: w)
  have oor: "select_col c (k - 1) = Inl IndexError" if "ncols c = ncols s" for c :: "fval tensor2"
    using assms(5) that by (intro select_col_out_of_range) simp
  have p: "precision_at a s sizes = Inl IndexError"
    using assms(4)
    by (simp add: precision_at_def Let_def py_max_eq [OF ne] g precision_loop_error oor
        to_float_def torch_cumsum_def)
  have "\<exists>r. recall_tensor a s sizes = Inr r \<and> ncols r = ncols s"
    using len
    by (simp add: recall_tensor_def Let_def py_max_eq [OF ne] g broadcast_div_def nrows_def
        sum_rows_def to_float_def torch_cumsum_def)
  then obtain r where "recall_tensor a s sizes = Inr r" "ncols r = ncols s" by blast
  then have "recall_at a s sizes = Inl IndexError"
    using assms(4) by (simp add: recall_at_def recall_loop_error oor)
  with p show ?thesis by simp
qed

theorem cutoff_above_classes_witness:
  "wf_tensor \<lparr>ncols = 2, rws = [[1, 0 :: int]]\<rparr> \<and>
   wf_tensor (\<lparr>ncols = 2, rws = [[5, 2]]\<rparr> :: rat tensor2) \<and>
   precision_at \<lparr>ncols = 2, rws = [[1, 0]]\<rparr> (\<lparr>ncols = 2, rws = [[5, 2]]\<rparr> :: rat tensor2) [1, 3]
     = Inl IndexError \<and>
   recall_at \<lparr>ncols = 2, rws = [[1, 0]]\<rparr> (\<lparr>ncols = 2, rws = [[5, 2]]\<rparr> :: rat tensor2) [1, 3]
     = Inl IndexError"
proof -
  let ?a = "\<lparr>ncols = 2, rws = [[1, 0 :: int]]\<rparr>"
  let ?s = "\<lparr>ncols = 2, rws = [[5, 2]]\<rparr> :: rat tensor2"
  have h: "wf_tensor ?a" "wf_tensor ?s" "same_shape ?a ?s" "3 \<in> set [1, 3 :: int]"
    "int (ncols ?s) < 3"
    by (simp_all add: shape_defs)
  from cutoff_above_classes [OF h] h show ?thesis by simp
qed

text \<open>Against C7 as stated: the cutoff 0 raises nothing. \<open>cumsum[:, -1]\<close> is the last
  gathered column, which \<^verbatim>\<open>precision_at\<close> divides by 0.\<close>

theorem cutoff_zero_returns_value:
  "precision_at \<lparr>ncols = 2, rws = [[1, 0]]\<rparr> (\<lparr>ncols = 2, rws = [[5, 2]]\<rparr> :: rat tensor2) [0, 2]
     = Inr [0 \<mapsto> PInf, 2 \<mapsto> Fin (1 / 2)] \<and>
   recall_at \<lparr>ncols = 2, rws = [[1, 0]]\<rparr> (\<lparr>ncols = 2, rws = [[5, 2]]\<rparr> :: rat tensor2) [0, 2]
     = Inr [0 \<mapsto> Fin 1, 2 \<mapsto> Fin 1]"
  by (simp add: eval_defs)

subsection \<open>Matrices of different shapes\<close>

text \<open>
  Claim C6, as the code has it. None of the three functions compares the shapes; a call
  fails where a library operation rejects its arguments. When the score matrix has more
  rows than the relevance matrix (and the cutoffs are between 1 and the number of score
  columns), \<^verbatim>\<open>torch.gather\<close> rejects the ranking in \<^verbatim>\<open>precision_at\<close> and \<^verbatim>\<open>recall_at\<close>,
  and scikit-learn rejects the sample counts in \<^verbatim>\<open>mean_average_precision\<close>.
\<close>

theorem more_score_rows_rejected:
  assumes "nrows a < nrows s" and "valid_sizes (ncols s) sizes"
  shows "precision_at a s sizes = Inl RuntimeError \<and> recall_at a s sizes = Inl RuntimeError \<and>
    mean_average_precision a s = Inl ValueError"
proof -
  note vs = valid_sizes_max [OF assms(2)]
  have "sizes \<noteq> []" using assms(2) by (simp add: valid_sizes_def)
  then have "Max (set sizes) \<in> set sizes" by (intro Max_in) simp_all
  with vs(4) have "0 < nat (Max (set sizes))" by auto
  moreover have "rws s \<noteq> []" using assms(1) by (auto simp: nrows_def)
  ultimately have g: "torch_gather a (slice_cols (torch_argsort_desc s) (Max (set sizes))) = Inl RuntimeError"
    using assms(1) by (simp add: torch_gather_def slice_cols_def torch_argsort_desc_def nrows_def vs(2))
  show ?thesis
    using assms(1)
    by (simp add: precision_at_def recall_at_def recall_tensor_def Let_def vs(1) g
        mean_average_precision_def average_precision_score_def)
qed

theorem more_score_rows_rejected_witness:
  "nrows \<lparr>ncols = 2, rws = [[1, 0 :: int]]\<rparr> < nrows (\<lparr>ncols = 2, rws = [[5, 2], [1, 4]]\<rparr> :: rat tensor2) \<and>
   valid_sizes 2 [1] \<and>
   precision_at \<lparr>ncols = 2, rws = [[1, 0]]\<rparr> (\<lparr>ncols = 2, rws = [[5, 2], [1, 4]]\<rparr> :: rat tensor2) [1]
     = Inl RuntimeError \<and>
   recall_at \<lparr>ncols = 2, rws = [[1, 0]]\<rparr> (\<lparr>ncols = 2, rws = [[5, 2], [1, 4]]\<rparr> :: rat tensor2) [1]
     = Inl RuntimeError \<and>
   mean_average_precision \<lparr>ncols = 2, rws = [[1, 0]]\<rparr> (\<lparr>ncols = 2, rws = [[5, 2], [1, 4]]\<rparr> :: rat tensor2)
     = Inl ValueError"
proof -
  let ?a = "\<lparr>ncols = 2, rws = [[1, 0 :: int]]\<rparr>"
  let ?s = "\<lparr>ncols = 2, rws = [[5, 2], [1, 4]]\<rparr> :: rat tensor2"
  have h: "nrows ?a < nrows ?s" "valid_sizes (ncols ?s) [1]"
    by (simp_all add: shape_defs)
  from more_score_rows_rejected [OF h] h show ?thesis by simp
qed

text \<open>Against C6 as stated: a relevance matrix of shape \<open>(1, 3)\<close> with a score matrix
  of shape \<open>(1, 2)\<close> is accepted; the third relevance column is left out of the ranking.\<close>

theorem extra_relevance_column_accepted:
  "\<not> same_shape \<lparr>ncols = 3, rws = [[1, 0, 1 :: int]]\<rparr> (\<lparr>ncols = 2, rws = [[5, 2]]\<rparr> :: rat tensor2) \<and>
   precision_at \<lparr>ncols = 3, rws = [[1, 0, 1]]\<rparr> (\<lparr>ncols = 2, rws = [[5, 2]]\<rparr> :: rat tensor2) [1]
     = Inr [1 \<mapsto> Fin 1] \<and>
   recall_at \<lparr>ncols = 3, rws = [[1, 0, 1]]\<rparr> (\<lparr>ncols = 2, rws = [[5, 2]]\<rparr> :: rat tensor2) [1]
     = Inr [1 \<mapsto> Fin (1 / 2)]"
  by (simp add: eval_defs same_shape_def)

subsection \<open>Epoch metrics and the pure functions\<close>

lemma torch_cat_vstack:
  assumes "ts \<noteq> []" and "\<forall>t\<in>set ts. ncols t = c"
  shows "torch_cat ts = Inr (vstack ts)"
  using assms by (cases ts) (auto simp: torch_cat_def vstack_def list_all_iff)

lemma foldl_mape_update:
  "y_true (foldl mape_update st bs) = y_true st @ map fst bs \<and>
   y_score (foldl mape_update st bs) = y_score st @ map snd bs"
  by (induction bs arbitrary: st) (simp_all add: mape_update_def case_prod_unfold)

lemma foldl_rae_update:
  "rae_y_true (foldl rae_update st bs) = rae_y_true st @ map fst bs \<and>
   rae_y_score (foldl rae_update st bs) = rae_y_score st @ map snd bs \<and>
   rae_sorted_sizes (foldl rae_update st bs) = rae_sorted_sizes st"
  by (induction bs arbitrary: st) (simp_all add: rae_update_def case_prod_unfold)

text \<open>
  Claim C3. Let \<open>bs\<close> be a non-empty sequence of batches \<open>(A, S)\<close> whose relevance
  matrices have one column count and whose score matrices have one column count. After
  \<^verbatim>\<open>reset()\<close> and one \<^verbatim>\<open>update()\<close> per batch, in order, \<^verbatim>\<open>compute()\<close> of
  \<^verbatim>\<open>MeanAveragePrecisionEpoch\<close> is \<^verbatim>\<open>mean_average_precision\<close> of the row-wise
  concatenations of the relevance and of the score matrices, and \<^verbatim>\<open>compute()\<close> of
  \<^verbatim>\<open>RecallAtEpoch\<close> is \<^verbatim>\<open>recall_at\<close> of them, with the cutoffs of the instance; an
  error of the pure function is the error of \<^verbatim>\<open>compute()\<close>.
\<close>

theorem epoch_compute_is_pure_function:
  fixes bs :: "(int tensor2 \<times> ('s::linorder) tensor2) list"
  assumes "bs \<noteq> []" and "\<forall>b\<in>set bs. ncols (fst b) = ca \<and> ncols (snd b) = cs"
  shows "mape_compute (foldl mape_update (mape_reset e) bs) =
      mean_average_precision (vstack (map fst bs)) (vstack (map snd bs)) \<and>
    rae_compute (foldl rae_update (rae_reset q) bs) =
      recall_at (vstack (map fst bs)) (vstack (map snd bs)) (rae_sorted_sizes q)"
proof -
  have a: "torch_cat (map fst bs) = Inr (vstack (map fst bs))"
    using assms by (intro torch_cat_vstack [where c = ca]) auto
  have s: "torch_cat (map snd bs) = Inr (vstack (map snd bs))"
    using assms by (intro torch_cat_vstack [where c = cs]) auto
  show ?thesis
    by (simp add: mape_compute_def rae_compute_def foldl_mape_update foldl_rae_update
        mape_reset_def rae_reset_def a s)
qed

theorem epoch_compute_is_pure_function_witness:
  "mape_compute (foldl mape_update (mape_reset \<lparr>y_true = [], y_score = []\<rparr>)
      [(\<lparr>ncols = 2, rws = [[1, 0]]\<rparr>, \<lparr>ncols = 2, rws = [[5, 2 :: rat]]\<rparr>),
       (\<lparr>ncols = 2, rws = [[0, 1]]\<rparr>, \<lparr>ncols = 2, rws = [[4, 1]]\<rparr>),
       (\<lparr>ncols = 2, rws = [[1, 1]]\<rparr>, \<lparr>ncols = 2, rws = [[1, 3]]\<rparr>)]) =
     mean_average_precision \<lparr>ncols = 2, rws = [[1, 0], [0, 1], [1, 1]]\<rparr>
       \<lparr>ncols = 2, rws = [[5, 2], [4, 1], [1, 3 :: rat]]\<rparr> \<and>
   rae_compute (foldl rae_update (rae_reset (rae_init [2, 1]))
      [(\<lparr>ncols = 2, rws = [[1, 0]]\<rparr>, \<lparr>ncols = 2, rws = [[5, 2 :: rat]]\<rparr>),
       (\<lparr>ncols = 2, rws = [[0, 1]]\<rparr>, \<lparr>ncols = 2, rws = [[4, 1]]\<rparr>),
       (\<lparr>ncols = 2, rws = [[1, 1]]\<rparr>, \<lparr>ncols = 2, rws = [[1, 3]]\<rparr>)]) =
     recall_at \<lparr>ncols = 2, rws = [[1, 0], [0, 1], [1, 1]]\<rparr>
       \<lparr>ncols = 2, rws = [[5, 2], [4, 1], [1, 3 :: rat]]\<rparr> [1, 2] \<and>
   recall_at \<lparr>ncols = 2, rws = [[1, 0], [0, 1], [1, 1]]\<rparr>
       \<lparr>ncols = 2, rws = [[5, 2], [4, 1], [1, 3 :: rat]]\<rparr> [1, 2] =
     Inr [1 \<mapsto> Fin (1 / 2), 2 \<mapsto> Fin 1]"
proof -
  let ?bs = "[(\<lparr>ncols = 2, rws = [[1, 0 :: int]]\<rparr>, \<lparr>ncols = 2, rws = [[5, 2 :: rat]]\<rparr>),
       (\<lparr>ncols = 2, rws = [[0, 1]]\<rparr>, \<lparr>ncols = 2, rws = [[4, 1]]\<rparr>),
       (\<lparr>ncols = 2, rws = [[1, 1]]\<rparr>, \<lparr>ncols = 2, rws = [[1, 3]]\<rparr>)]"
  have h: "?bs \<noteq> []" "\<forall>b\<in>set ?bs. ncols (fst b) = 2 \<and> ncols (snd b) = 2" by simp_all
  note e = epoch_compute_is_pure_function [OF h, of "\<lparr>y_true = [], y_score = []\<rparr>" "rae_init [2, 1]"]
  have "recall_at \<lparr>ncols = 2, rws = [[1, 0], [0, 1], [1, 1]]\<rparr>
       \<lparr>ncols = 2, rws = [[5, 2], [4, 1], [1, 3 :: rat]]\<rparr> [1, 2] =
     Inr [1 \<mapsto> Fin (1 / 2), 2 \<mapsto> Fin 1]"
    by (simp add: eval_defs)
  with e show ?thesis by (simp add: vstack_def rae_init_def rae_reset_def)
qed

subsection \<open>mean_average_precision and classes without positive sample\<close>

text \<open>The lemmas up to \<open>average_precision_no_positive\<close> are about scikit-learn up to 1.0.\<close>

lemma fadd_zero_right: "fadd x (Fin 0) = x"
  by (cases x) simp_all

lemma foldl_fadd_skip_NaN:
  "foldl fadd acc (map (\<lambda>x. if x = NaN then Fin 0 else x) xs) =
     foldl fadd acc (filter (\<lambda>x. x \<noteq> NaN) xs)"
  by (induction xs arbitrary: acc) (simp_all add: fadd_zero_right)

lemma nanmean_skips_NaN: "nanmean xs = fmean (filter (\<lambda>x. x \<noteq> NaN) xs)"
  by (simp add: nanmean_def fmean_def fsum_def foldl_fadd_skip_NaN)

lemma nanmean_all_NaN:
  assumes "\<forall>x\<in>set xs. x = NaN"
  shows "nanmean xs = NaN"
proof -
  have "filter (\<lambda>x. x \<noteq> NaN) xs = []" using assms by (simp add: filter_empty_conv)
  then show ?thesis by (simp add: nanmean_skips_NaN fmean_def fsum_def)
qed

lemma threshold_idxs_nonempty:
  assumes "ys \<noteq> []"
  shows "threshold_idxs ys \<noteq> []" and "\<forall>i\<in>set (threshold_idxs ys). i < length ys"
proof -
  have "length ys - 1 \<in> set (threshold_idxs ys)"
    using assms by (simp add: threshold_idxs_def)
  then show "threshold_idxs ys \<noteq> []" by auto
  show "\<forall>i\<in>set (threshold_idxs ys). i < length ys"
    by (simp add: threshold_idxs_def)
qed

lemma sum_list_zeros: "\<forall>x\<in>set xs. x = (0::int) \<Longrightarrow> sum_list xs = 0"
  by (induction xs) simp_all

lemma cumsum_from_zeros:
  assumes "\<forall>x\<in>set xs. x = 0" and "i < length xs"
  shows "cumsum_from 0 xs ! i = 0"
proof -
  have "\<forall>x\<in>set (take (Suc i) xs). x = 0" using assms(1) by (auto dest: in_set_takeD)
  then have "sum_list (take (Suc i) xs) = 0" by (rule sum_list_zeros)
  with assms(2) show ?thesis by (simp add: cumsum_from_eq)
qed

lemma average_precision_no_positive:
  fixes ysc :: "('s::linorder) list"
  assumes "list_all (\<lambda>x. x = 0) yt" and "length yt = length ysc"
    and "yt \<noteq> []"
  shows "average_precision yt ysc = NaN"
proof -
  define ps where "ps = desc_sorted ysc yt"
  define labels where "labels = map (\<lambda>p. if snd p = 1 then 1 else (0::int)) ps"
  define idxs where "idxs = threshold_idxs (map fst ps)"
  define tps where "tps = map (\<lambda>i. cumsum_from 0 labels ! i) idxs"
  define fps where "fps = map (\<lambda>(i, t). 1 + int i - t) (zip idxs tps)"
  define precision0 where "precision0 =
    map (\<lambda>x. if x = NaN then Fin 0 else x) (map (\<lambda>(t, f). fdiv (Fin (of_int t)) (t + f)) (zip tps fps))"
  define recall where "recall = map (\<lambda>t. fdiv (Fin (of_int t)) (last tps)) tps"
  have len_ps: "length ps = length yt"
    using assms(2) by (simp add: ps_def desc_sorted_def)
  have "snd p = 0" if "p \<in> set ps" for p
  proof -
    from that have "p \<in> set (zip ysc yt)" by (simp add: ps_def desc_sorted_def)
    then have "snd p \<in> set yt" using set_zip_rightD [of "fst p" "snd p" ysc yt] by simp
    with assms(1) show ?thesis by (simp add: list_all_iff)
  qed
  then have labels0: "\<forall>x\<in>set labels. x = 0" by (auto simp: labels_def)
  have len_labels: "length labels = length yt" by (simp add: labels_def len_ps)
  have "map fst ps \<noteq> []" using len_ps assms(3) by auto
  from threshold_idxs_nonempty [OF this]
  have idxs_ne: "idxs \<noteq> []" and idxs_lt: "\<forall>i\<in>set idxs. i < length yt"
    by (simp_all add: idxs_def len_ps)
  have tps0: "tps = map (\<lambda>i. 0) idxs"
    unfolding tps_def using idxs_lt len_labels
    by (intro map_cong refl cumsum_from_zeros [OF labels0]) simp
  obtain i rest where idxs: "idxs = i # rest" using idxs_ne by (cases idxs) auto
  have last0: "last tps = 0" by (simp add: tps0 idxs last_map)
  have li: "length (takeWhile (\<lambda>t. t < last tps) tps) = 0"
    by (simp add: last0) (simp add: tps0 idxs)
  have rec: "take (Suc 0) recall = [NaN]"
    unfolding recall_def last0 by (simp add: tps0 idxs)
  obtain p where prec: "take (Suc 0) precision0 = [p]"
    by (simp add: precision0_def fps_def tps0 idxs)
  have "average_precision yt ysc =
      fneg (fsum (map (\<lambda>(d, p). fmul d p)
        (zip (np_diff (rev (take (Suc (length (takeWhile (\<lambda>t. t < last tps) tps))) recall) @ [Fin 0]))
             (butlast (rev (take (Suc (length (takeWhile (\<lambda>t. t < last tps) tps))) precision0) @ [Fin 1])))))"
    by (simp add: average_precision_def Let_def ps_def labels_def idxs_def tps_def fps_def
        precision0_def recall_def)
  also have "\<dots> = NaN"
    unfolding li rec prec by (simp add: fsub_def fsum_def)
  finally show ?thesis .
qed

lemma mean_average_precision_by_1_0:
  "mean_average_precision_by average_precision_score a s = mean_average_precision a s"
  by (simp add: mean_average_precision_by_def mean_average_precision_def)

text \<open>
  Claim C4, at batches with a class without positive sample. The comment in
  \<^verbatim>\<open>mean_average_precision\<close> expects NaN for such a class, left out of the mean. With
  scikit-learn up to 1.0 that is what happens: \<open>[[0, 0, 0, 0]]\<close> gives NaN, and the
  empty second class of the second batch is left out of the mean, which is 1. With
  scikit-learn from 1.1 on the class counts as 0: the first batch gives 0 and the second
  \<open>1 / 2\<close>.
\<close>

theorem mean_average_precision_without_positives:
  "mean_average_precision_by average_precision_score_1_1 \<lparr>ncols = 4, rws = [[0, 0, 0, 0]]\<rparr>
     (\<lparr>ncols = 4, rws = [[9/10, 1/10, 2/10, 8/10]]\<rparr> :: rat tensor2) = Inr (Fin 0) \<and>
   mean_average_precision_by average_precision_score \<lparr>ncols = 4, rws = [[0, 0, 0, 0]]\<rparr>
     (\<lparr>ncols = 4, rws = [[9/10, 1/10, 2/10, 8/10]]\<rparr> :: rat tensor2) = Inr NaN \<and>
   mean_average_precision_by average_precision_score_1_1 \<lparr>ncols = 2, rws = [[1, 0], [0, 0], [1, 0]]\<rparr>
     (\<lparr>ncols = 2, rws = [[5, 2], [4, 1], [6, 3]]\<rparr> :: rat tensor2) = Inr (Fin (1 / 2)) \<and>
   mean_average_precision_by average_precision_score \<lparr>ncols = 2, rws = [[1, 0], [0, 0], [1, 0]]\<rparr>
     (\<lparr>ncols = 2, rws = [[5, 2], [4, 1], [6, 3]]\<rparr> :: rat tensor2) = Inr (Fin 1)"
  by code_simp

subsection \<open>Premature compute\<close>

text \<open>
  Claim C2, as the code has it. A batch-scoped metric in its reset state does not raise
  on \<^verbatim>\<open>compute()\<close>: \<^verbatim>\<open>MeanAveragePrecisionBatch\<close> returns the NaN that \<^verbatim>\<open>reset()\<close> stored
  and \<^verbatim>\<open>RecallAtBatch\<close> returns the dictionary that maps every cutoff to \<^verbatim>\<open>None\<close>. An
  epoch-scoped metric with an empty accumulator does raise: \<^verbatim>\<open>torch.cat\<close> rejects the
  empty list.
\<close>

theorem compute_after_reset:
  "mapb_compute (mapb_reset b) = Inr NaN \<and>
   rab_compute (rab_reset r) =
     Inr (\<lambda>s. if s \<in> set (rab_sorted_sizes r) then Some None else None) \<and>
   mape_compute (mape_reset (e :: ('s::linorder) MeanAveragePrecisionEpoch)) = Inl RuntimeError \<and>
   rae_compute (rae_reset (q :: ('t::linorder) RecallAtEpoch)) = Inl RuntimeError"
  by (simp add: mapb_compute_def mapb_reset_def rab_compute_def rab_reset_def
      mape_compute_def mape_reset_def rae_compute_def rae_reset_def torch_cat_def)

text \<open>Against C2 as stated: the reset \<^verbatim>\<open>MeanAveragePrecisionBatch\<close> returns a value.\<close>

theorem batch_compute_returns_sentinel:
  "mapb_compute (mapb_reset \<lparr>avg_precision = Fin 0\<rparr>) = Inr NaN"
  by (simp add: mapb_compute_def mapb_reset_def)

subsection \<open>Attaching a batch metric\<close>

lemma registrations_add:
  "registrations (add_event_handler eng ev h args) ev' h' =
     registrations eng ev' h' + (if ev' = ev \<and> h' = h then 1 else 0)"
  by (simp add: registrations_def add_event_handler_def)

lemma has_event_handler_registrations:
  "has_event_handler eng h ev \<longleftrightarrow> 0 < registrations eng ev h"
  by (auto simp: has_event_handler_def registrations_def filter_empty_conv)

lemma registrations_new_engine: "registrations new_engine ev h = 0"
  by (simp add: registrations_def new_engine_def)

text \<open>
  Claim C8, as the code has it. On an engine that does not know the metric yet, attaching
  it twice under the same name registers the reset callback once on iteration-start and
  the update callback once on iteration-end, as the two guards of \<^verbatim>\<open>attach\<close> see to;
  the publishing callback \<^verbatim>\<open>completed\<close> is added by every call and is registered twice.
\<close>

theorem attach_twice:
  assumes "registrations eng ITERATION_STARTED (m, Started) = 0"
    and "registrations eng ITERATION_COMPLETED (m, Iteration_completed) = 0"
    and "registrations eng ITERATION_COMPLETED (m, Completed) = 0"
  shows "registrations (attach m (attach m eng name) name) ITERATION_STARTED (m, Started) = 1 \<and>
     registrations (attach m (attach m eng name) name) ITERATION_COMPLETED
       (m, Iteration_completed) = 1 \<and>
     registrations (attach m (attach m eng name) name) ITERATION_COMPLETED (m, Completed) = 2"
  using assms
  by (simp add: attach_def Let_def registrations_add has_event_handler_registrations)

theorem attach_twice_witness:
  "registrations new_engine ITERATION_STARTED (0, Started) = 0 \<and>
   registrations new_engine ITERATION_COMPLETED (0, Iteration_completed) = 0 \<and>
   registrations new_engine ITERATION_COMPLETED (0, Completed) = 0 \<and>
   registrations (attach 0 (attach 0 new_engine ''recall'') ''recall'')
     ITERATION_STARTED (0, Started) = 1 \<and>
   registrations (attach 0 (attach 0 new_engine ''recall'') ''recall'')
     ITERATION_COMPLETED (0, Iteration_completed) = 1 \<and>
   registrations (attach 0 (attach 0 new_engine ''recall'') ''recall'')
     ITERATION_COMPLETED (0, Completed) = 2"
  using attach_twice [OF registrations_new_engine registrations_new_engine
      registrations_new_engine, of 0 "''recall''"]
  by (simp add: registrations_new_engine)

text \<open>Against C8 as stated: after two calls the publishing callback is registered twice.\<close>

theorem attach_twice_publishes_twice:
  "registrations (attach 0 (attach 0 new_engine ''recall'') ''recall'')
     ITERATION_COMPLETED (0, Completed) = 2"
  by (simp add: attach_def Let_def registrations_add has_event_handler_registrations
      registrations_new_engine)

end
